theory Spec2Isabelle
  imports Complex_Main
begin

section \<open>Errors\<close>

text \<open>
  Every exception the Python code can raise is a value.  \<open>ValueError\<close> and \<open>KeyError\<close>
  are raised by the repository's own checks; \<open>OverflowError\<close> comes from \<open>datetime\<close>,
  \<open>timedelta\<close>, \<open>int / int\<close> and \<open>math.exp\<close>; \<open>InvalidOperation\<close>, \<open>DecimalOverflow\<close>
  and \<open>DivisionByZero\<close> are the trapped signals of the default \<open>decimal\<close> context.
\<close>

datatype error =
  ValueError | KeyError | OverflowError | InvalidOperation | DecimalOverflow | DivisionByZero

section \<open>The decimal module, default context\<close>

text \<open>
  A finite \<open>Decimal\<close> is modelled by its numeric value, a rational.  The default context
  (28 significant digits, round-half-even, exponents between \<open>-999999\<close> and \<open>999999\<close>) is
  written out: every arithmetic result is the exact result rounded to the context.
  \<open>Decimal(int)\<close> and \<open>Decimal(float)\<close> are exact and are the embedding \<open>of_int\<close> and the
  identity on the float's value.
\<close>

text \<open>The number of digits of a positive integer in base \<open>b\<close> (\<open>len(str(n))\<close> for base 10).\<close>

function ndigits :: "int \<Rightarrow> int \<Rightarrow> int" where
  "ndigits b n = (if b \<le> 1 \<or> n < b then 1 else 1 + ndigits b (n div b))"
  by pat_completeness auto
termination
  by (relation "measure (\<lambda>(b, n). nat n)") (auto intro!: int_div_less_self)

declare ndigits.simps [simp del]

text \<open>
  The adjusted exponent of a non-zero value in base \<open>b\<close>: the \<open>e\<close> with
  \<open>b ^ e \<le> \<bar>x\<bar> < b ^ (e + 1)\<close>.
\<close>

definition adjusted :: "int \<Rightarrow> rat \<Rightarrow> int" where
  "adjusted b x =
     (let (p, q) = quotient_of \<bar>x\<bar>;
          d = ndigits b p - ndigits b q
      in if of_int b powi d \<le> \<bar>x\<bar> then d else d - 1)"

definition round_half_even :: "rat \<Rightarrow> int" where
  "round_half_even y =
     (let f = \<lfloor>y\<rfloor>; r = y - of_int f
      in if r < 1 / 2 then f else if 1 / 2 < r then f + 1
         else if even f then f else f + 1)"

definition round_half_up :: "rat \<Rightarrow> int" where
  "round_half_up y = (if 0 \<le> y then \<lfloor>y + 1 / 2\<rfloor> else - \<lfloor>- y + 1 / 2\<rfloor>)"

definition prec :: int where "prec = 28"
definition emax :: int where "emax = 999999"
definition etiny :: int where "etiny = - 1000026"

text \<open>
  Rounding an exact result to the context: 28 significant digits, half-even; a result
  below the normal range is rounded at exponent \<open>Etiny\<close>; a result above it raises.
\<close>

definition fix_ctx :: "rat \<Rightarrow> error + rat" where
  "fix_ctx x =
     (if x = 0 then Inr 0
      else let s = max (adjusted 10 x - (prec - 1)) etiny;
               r = of_int (round_half_even (x / 10 powi s)) * 10 powi s
           in if r \<noteq> 0 \<and> emax < adjusted 10 r then Inl DecimalOverflow else Inr r)"

definition dec_mul :: "rat \<Rightarrow> rat \<Rightarrow> error + rat" where
  "dec_mul a b = fix_ctx (a * b)"

definition dec_div :: "rat \<Rightarrow> rat \<Rightarrow> error + rat" where
  "dec_div a b =
     (if b = 0 then (if a = 0 then Inl InvalidOperation else Inl DivisionByZero)
      else fix_ctx (a / b))"

text \<open>
  \<open>x.quantize(Decimal('0.01'), ROUND_HALF_UP)\<close>: the value rounded to two fractional
  digits, ties away from zero; it raises when the result needs more than 28 digits.
\<close>

definition quantize2 :: "rat \<Rightarrow> error + rat" where
  "quantize2 x =
     (let c = round_half_up (x * 100)
      in if 10 ^ 26 \<le> \<bar>x\<bar> \<or> 10 ^ 28 \<le> \<bar>c\<bar> then Inl InvalidOperation
         else Inr (of_int c / 100))"

section \<open>Floats\<close>

text \<open>
  A finite double is modelled by its value.  \<open>float(d)\<close> of a \<open>Decimal\<close> is the nearest
  double (53 significant bits, half-even); the values converted by the exchange are
  results of \<open>quantize2\<close>, which lie in the normal range.  Float division is the exact
  quotient rounded the same way.  The library functions \<open>math.log\<close> and \<open>math.exp\<close>, the
  built-in \<open>sum\<close> over floats (plain or compensated, depending on the interpreter) and
  the value of \<open>Decimal(str(f))\<close> are parameters.
\<close>

datatype pyfloat = Finite rat | PosInf | NegInf | NaN

definition round_double :: "rat \<Rightarrow> rat" where
  "round_double x =
     (if x = 0 then 0
      else let s = adjusted 2 x - 52
           in of_int (round_half_even (x / 2 powi s)) * 2 powi s)"

definition float_of_dec :: "rat \<Rightarrow> rat" where
  "float_of_dec x = round_double x"

definition float_div :: "rat \<Rightarrow> rat \<Rightarrow> rat" where
  "float_div a b = round_double (a / b)"

record libm =
  math_log :: "rat \<Rightarrow> rat"
  math_exp :: "rat \<Rightarrow> error + rat"
  float_sum :: "rat list \<Rightarrow> rat"
  dec_of_str :: "rat \<Rightarrow> rat"

text \<open>
  \<open>a / b\<close> on two ints raises \<open>OverflowError\<close> when the correctly rounded quotient is
  beyond the largest double.
\<close>

definition int_true_div_overflows :: "int \<Rightarrow> int \<Rightarrow> bool" where
  "int_true_div_overflows a b = (2 ^ 1024 - 2 ^ 970 \<le> \<bar>(of_int a :: rat) / of_int b\<bar>)"

section \<open>Time\<close>

text \<open>
  A \<open>datetime\<close> is a count of microseconds since 0001-01-01T00:00:00, a \<open>timedelta\<close> a
  count of microseconds; both types have a bounded range and raise outside it.
\<close>

definition us_per_day :: int where "us_per_day = 86400000000"

definition datetime_ok :: "int \<Rightarrow> bool" where
  "datetime_ok t = (0 \<le> t \<and> t < 3652059 * us_per_day)"

definition timedelta_minutes :: "int \<Rightarrow> error + int" where
  "timedelta_minutes m =
     (let us = m * 60000000; days = us div us_per_day
      in if days < - 999999999 \<or> 999999999 < days then Inl OverflowError else Inr us)"

definition datetime_sub :: "int \<Rightarrow> int \<Rightarrow> error + int" where
  "datetime_sub t d = (if datetime_ok (t - d) then Inr (t - d) else Inl OverflowError)"

section \<open>Trades and stocks\<close>

datatype TradeIndicator = BUY | SELL

record Trade =
  timestamp :: int
  quantity :: int
  indicator :: TradeIndicator
  price_pennies :: int

datatype StockKind = Common | Preferred rat

record Stock =
  symbol :: string
  par_value_pennies :: int
  last_dividend_pennies :: int
  kind :: StockKind
  trades :: "Trade list"

text \<open>\<open>Stock.__init__\<close>: the checks of the base class, and the fields it sets.\<close>

definition Stock_init :: "string \<Rightarrow> int \<Rightarrow> error + (string \<times> int \<times> Trade list)" where
  "Stock_init symb par =
     (if symb = [] \<or> 10 < length symb then Inl ValueError
      else if par \<le> 0 then Inl ValueError
      else Inr (symb, par, []))"

definition CommonStock_init :: "string \<Rightarrow> int \<Rightarrow> int \<Rightarrow> error + Stock" where
  "CommonStock_init symb last_dividend par =
     (case Stock_init symb par of
        Inl e \<Rightarrow> Inl e
      | Inr (s, p, ts) \<Rightarrow>
          if last_dividend < 0 then Inl ValueError
          else Inr \<lparr>symbol = s, par_value_pennies = p, last_dividend_pennies = last_dividend,
                    kind = Common, trades = ts\<rparr>)"

text \<open>The chained comparison \<open>0 < pct <= 1.0\<close> on a float.\<close>

fun in_rate_range :: "pyfloat \<Rightarrow> bool" where
  "in_rate_range (Finite r) = (0 < r \<and> r \<le> 1)"
| "in_rate_range PosInf = False"
| "in_rate_range NegInf = False"
| "in_rate_range NaN = False"

fun float_value :: "pyfloat \<Rightarrow> rat" where
  "float_value (Finite r) = r"
| "float_value _ = 0"

definition PreferredStock_init :: "string \<Rightarrow> int \<Rightarrow> pyfloat \<Rightarrow> int \<Rightarrow> error + Stock" where
  "PreferredStock_init symb last_dividend pct par =
     (case Stock_init symb par of
        Inl e \<Rightarrow> Inl e
      | Inr (s, p, ts) \<Rightarrow>
          if \<not> in_rate_range pct then Inl ValueError
          else Inr \<lparr>symbol = s, par_value_pennies = p, last_dividend_pennies = last_dividend,
                    kind = Preferred (float_value pct), trades = ts\<rparr>)"

text \<open>\<open>dividend_yield\<close> of \<open>CommonStock\<close> and of \<open>PreferredStock\<close>.\<close>

definition dividend_yield :: "Stock \<Rightarrow> int \<Rightarrow> error + rat" where
  "dividend_yield s price =
     (if price \<le> 0 then Inr 0
      else case kind s of
        Common \<Rightarrow>
          (case dec_mul (of_int (last_dividend_pennies s)) 100 of
             Inl e \<Rightarrow> Inl e
           | Inr a \<Rightarrow>
               (case dec_div a (of_int price) of
                  Inl e \<Rightarrow> Inl e
                | Inr y \<Rightarrow> quantize2 y))
      | Preferred pct \<Rightarrow>
          (case dec_mul pct (of_int (par_value_pennies s)) of
             Inl e \<Rightarrow> Inl e
           | Inr fixed_div \<Rightarrow>
               (case dec_mul fixed_div 100 of
                  Inl e \<Rightarrow> Inl e
                | Inr a \<Rightarrow>
                    (case dec_div a (of_int price) of
                       Inl e \<Rightarrow> Inl e
                     | Inr y \<Rightarrow> quantize2 y))))"

definition pe_ratio :: "Stock \<Rightarrow> int \<Rightarrow> error + rat option" where
  "pe_ratio s price =
     (if price \<le> 0 \<or> last_dividend_pennies s = 0 then Inr None
      else case dec_div (of_int price) (of_int (last_dividend_pennies s)) of
             Inl e \<Rightarrow> Inl e
           | Inr r \<Rightarrow> Inr (Some r))"

text \<open>
  \<open>record_trade\<close> returns the outcome together with the stock afterwards.  \<open>now\<close> is the
  clock reading \<open>datetime.now()\<close>.  The log line formats \<open>price_pennies / 100\<close>, a true
  division of ints, after the trade has been appended.
\<close>

definition record_trade ::
  "Stock \<Rightarrow> int \<Rightarrow> int \<Rightarrow> TradeIndicator \<Rightarrow> int \<Rightarrow> (error + unit) \<times> Stock" where
  "record_trade s now qty ind price =
     (if qty \<le> 0 \<or> price \<le> 0 then (Inl ValueError, s)
      else let trade = \<lparr>timestamp = now, quantity = qty, indicator = ind,
                         price_pennies = price\<rparr>;
               s' = s\<lparr>trades := trades s @ [trade]\<rparr>
           in if int_true_div_overflows price 100 then (Inl OverflowError, s')
              else (Inr (), s'))"

definition cutoff_time :: "int \<Rightarrow> int \<Rightarrow> error + int" where
  "cutoff_time now minutes_back =
     (case timedelta_minutes minutes_back of
        Inl e \<Rightarrow> Inl e
      | Inr d \<Rightarrow> datetime_sub now d)"

text \<open>
  \<open>volume_weighted_stock_price\<close>: the comprehension that selects the recent trades, the
  two sums, and the rest of the method on the selected trades.
\<close>

definition recent_trades :: "Stock \<Rightarrow> int \<Rightarrow> Trade list" where
  "recent_trades s cutoff = filter (\<lambda>t. cutoff \<le> timestamp t) (trades s)"

definition total_qty :: "Trade list \<Rightarrow> int" where
  "total_qty recent = sum_list (map quantity recent)"

definition weighted :: "Trade list \<Rightarrow> int" where
  "weighted recent = sum_list (map (\<lambda>t. quantity t * price_pennies t) recent)"

definition vwap_of :: "Trade list \<Rightarrow> error + rat option" where
  "vwap_of recent =
     (if recent = [] then Inr None
      else if total_qty recent = 0 then Inr None
      else case dec_div (of_int (weighted recent)) (of_int (total_qty recent)) of
             Inl e \<Rightarrow> Inl e
           | Inr a \<Rightarrow>
               (case dec_div a 100 of
                  Inl e \<Rightarrow> Inl e
                | Inr vwap \<Rightarrow>
                    (case quantize2 vwap of
                       Inl e \<Rightarrow> Inl e
                     | Inr v \<Rightarrow> Inr (Some v))))"

definition volume_weighted_stock_price :: "Stock \<Rightarrow> int \<Rightarrow> int \<Rightarrow> error + rat option" where
  "volume_weighted_stock_price s now minutes_back =
     (case cutoff_time now minutes_back of
        Inl e \<Rightarrow> Inl e
      | Inr cutoff \<Rightarrow> vwap_of (recent_trades s cutoff))"

section \<open>The exchange\<close>

text \<open>
  The registry is a Python dict: an association list with distinct keys, in insertion
  order.
\<close>

type_synonym exchange = "(string \<times> Stock) list"

definition Exchange_init :: exchange where
  "Exchange_init = []"

fun dict_set :: "exchange \<Rightarrow> string \<Rightarrow> Stock \<Rightarrow> exchange" where
  "dict_set [] k v = [(k, v)]"
| "dict_set ((k', v') # kvs) k v =
     (if k' = k then (k, v) # kvs else (k', v') # dict_set kvs k v)"

definition create_common_stock ::
  "exchange \<Rightarrow> string \<Rightarrow> int \<Rightarrow> int \<Rightarrow> (error + Stock) \<times> exchange" where
  "create_common_stock ex symb last_dividend par =
     (if map_of ex symb \<noteq> None then (Inl ValueError, ex)
      else case CommonStock_init symb last_dividend par of
             Inl e \<Rightarrow> (Inl e, ex)
           | Inr stock \<Rightarrow> (Inr stock, dict_set ex symb stock))"

definition create_preferred_stock ::
  "exchange \<Rightarrow> string \<Rightarrow> int \<Rightarrow> pyfloat \<Rightarrow> int \<Rightarrow> (error + Stock) \<times> exchange" where
  "create_preferred_stock ex symb last_dividend pct par =
     (if map_of ex symb \<noteq> None then (Inl ValueError, ex)
      else case PreferredStock_init symb last_dividend pct par of
             Inl e \<Rightarrow> (Inl e, ex)
           | Inr stock \<Rightarrow> (Inr stock, dict_set ex symb stock))"

definition get_stock :: "exchange \<Rightarrow> string \<Rightarrow> error + Stock" where
  "get_stock ex symb =
     (case map_of ex symb of None \<Rightarrow> Inl KeyError | Some stock \<Rightarrow> Inr stock)"

text \<open>\<open>float(vwsp or 0)\<close>: \<open>None\<close> and a zero \<open>Decimal\<close> are falsy and become \<open>0.0\<close>.\<close>

definition float_of_vwsp :: "rat option \<Rightarrow> rat" where
  "float_of_vwsp r =
     (case r of None \<Rightarrow> 0 | Some v \<Rightarrow> if v = 0 then 0 else float_of_dec v)"

text \<open>
  The first comprehension of \<open>gbce_all_share_index\<close>.  Each call of
  \<open>volume_weighted_stock_price\<close> reads the clock again: \<open>clock i\<close> is the reading of the
  \<open>i\<close>-th call.  The first exception ends the loop.
\<close>

fun collect_vwsps :: "(nat \<Rightarrow> int) \<Rightarrow> nat \<Rightarrow> Stock list \<Rightarrow> error + rat list" where
  "collect_vwsps clock i [] = Inr []"
| "collect_vwsps clock i (s # ss) =
     (case volume_weighted_stock_price s (clock i) 5 of
        Inl e \<Rightarrow> Inl e
      | Inr r \<Rightarrow>
          (case collect_vwsps clock (Suc i) ss of
             Inl e \<Rightarrow> Inl e
           | Inr vs \<Rightarrow> Inr (float_of_vwsp r # vs)))"

text \<open>The last two lines of \<open>gbce_all_share_index\<close>, on the non-empty list of floats.\<close>

definition log_mean_exp :: "libm \<Rightarrow> rat list \<Rightarrow> error + rat" where
  "log_mean_exp L vwsps =
     (let log_sum = float_sum L (map (math_log L) vwsps)
      in case math_exp L (float_div log_sum (of_nat (length vwsps))) of
           Inl e \<Rightarrow> Inl e
         | Inr g \<Rightarrow> quantize2 (dec_of_str L g))"

definition gbce_all_share_index :: "libm \<Rightarrow> exchange \<Rightarrow> (nat \<Rightarrow> int) \<Rightarrow> error + rat option" where
  "gbce_all_share_index L ex clock =
     (case collect_vwsps clock 0 (map snd ex) of
        Inl e \<Rightarrow> Inl e
      | Inr vwsps \<Rightarrow>
          let vwsps' = filter (\<lambda>v. 0 < v) vwsps
          in if vwsps' = [] then Inr None
             else case log_mean_exp L vwsps' of
                    Inl e \<Rightarrow> Inl e
                  | Inr g \<Rightarrow> Inr (Some g))"

section \<open>Notions of the specification\<close>

text \<open>A value rounded once, half-up, to two fractional digits.\<close>

definition round2_half_up :: "rat \<Rightarrow> rat" where
  "round2_half_up x = of_int (round_half_up (x * 100)) / 100"

text \<open>The trades that \<open>record_trade\<close> admits.\<close>

definition admitted :: "Trade \<Rightarrow> bool" where
  "admitted t = (0 < quantity t \<and> 0 < price_pennies t)"

text \<open>
  The stocks that the two constructors and \<open>record_trade\<close> can produce, whatever the
  outcome of each call.
\<close>

inductive reachable :: "Stock \<Rightarrow> bool" where
  common: "CommonStock_init symb d par = Inr s \<Longrightarrow> reachable s"
| preferred: "PreferredStock_init symb d pct par = Inr s \<Longrightarrow> reachable s"
| trade: "reachable s \<Longrightarrow> reachable (snd (record_trade s now qty ind price))"

text \<open>
  The qualifying stocks of the index: those whose call of
  \<open>volume_weighted_stock_price\<close> returns a value that is defined and strictly positive.
\<close>

fun qualifying_vwsps :: "(nat \<Rightarrow> int) \<Rightarrow> nat \<Rightarrow> Stock list \<Rightarrow> rat list" where
  "qualifying_vwsps clock i [] = []"
| "qualifying_vwsps clock i (s # ss) =
     (case volume_weighted_stock_price s (clock i) 5 of
        Inr (Some v) \<Rightarrow>
          if 0 < v then v # qualifying_vwsps clock (Suc i) ss
          else qualifying_vwsps clock (Suc i) ss
      | _ \<Rightarrow> qualifying_vwsps clock (Suc i) ss)"



section \<open>The demonstration run\<close>

text \<open>
  \<open>main\<close> registers TEA as a common stock with last dividend 0 and par value 10000 and
  records two trades on it.  \<open>demo_t0\<close> is a clock reading (microseconds, in the year 2026).
\<close>

definition demo_t0 :: int where
  "demo_t0 = 63900000000000000"

definition tea0 :: Stock where
  "tea0 = \<lparr>symbol = ''TEA'', par_value_pennies = 10000, last_dividend_pennies = 0,
            kind = Common, trades = []\<rparr>"

definition pop0 :: Stock where
  "pop0 = \<lparr>symbol = ''POP'', par_value_pennies = 10000, last_dividend_pennies = 8,
            kind = Common, trades = []\<rparr>"

definition ale0 :: Stock where
  "ale0 = \<lparr>symbol = ''ALE'', par_value_pennies = 6000, last_dividend_pennies = 23,
            kind = Common, trades = []\<rparr>"

definition gin0 :: Stock where
  "gin0 = \<lparr>symbol = ''GIN'', par_value_pennies = 10000, last_dividend_pennies = 8,
            kind = Preferred (5764607523034235 / 2 ^ 58), trades = []\<rparr>"

definition tea_trades :: "Trade list" where
  "tea_trades =
     [\<lparr>timestamp = demo_t0, quantity = 1000, indicator = BUY, price_pennies = 9550\<rparr>,
      \<lparr>timestamp = demo_t0 + 1, quantity = 2000, indicator = SELL, price_pennies = 10230\<rparr>]"

definition tea2 :: Stock where
  "tea2 = tea0\<lparr>trades := tea_trades\<rparr>"

text \<open>
  A ledger of two very large trades, both admitted by \<open>record_trade\<close>: \<open>10 ^ 30 + 1\<close> shares
  at 1 penny and \<open>10 ^ 30 - 1\<close> shares at 2 pennies.
\<close>

definition huge_trades :: "Trade list" where
  "huge_trades =
     [\<lparr>timestamp = demo_t0, quantity = 10 ^ 30 + 1, indicator = BUY, price_pennies = 1\<rparr>,
      \<lparr>timestamp = demo_t0 + 1, quantity = 10 ^ 30 - 1, indicator = SELL, price_pennies = 2\<rparr>]"

definition huge :: Stock where
  "huge = tea0\<lparr>trades := huge_trades\<rparr>"

text \<open>A ledger with one trade of 1 share at \<open>10 ^ 28\<close> pennies.\<close>

definition costly :: Stock where
  "costly = tea0\<lparr>trades := [\<lparr>timestamp = demo_t0, quantity = 1, indicator = BUY,
                                price_pennies = 10 ^ 28\<rparr>]\<rparr>"



text \<open>
  A stand-in for the float library at the arguments of that example: logarithms from a
  four-digit table, an exact sum, and an exponential that answers 6.
\<close>

definition table_libm :: libm where
  "table_libm =
     \<lparr>math_log = (\<lambda>v. if v = 4 then 13863 / 10000 else if v = 9 then 21972 / 10000 else 0),
      math_exp = (\<lambda>x. Inr 6),
      float_sum = sum_list,
      dec_of_str = (\<lambda>x. x)\<rparr>"

text \<open>The double nearest to 0.02, the fixed dividend rate of GIN in \<open>main\<close>.\<close>

definition float_0_02 :: rat where
  "float_0_02 = 5764607523034235 / 2 ^ 58"

section \<open>Digits, exponents and rounding\<close>

lemma ndigits_pos: "1 \<le> ndigits b n"
  by (induction b n rule: ndigits.induct) (subst ndigits.simps, auto)

lemma ndigits_bounds:
  "1 < b \<Longrightarrow> 0 < n \<Longrightarrow> b ^ nat (ndigits b n - 1) \<le> n \<and> n < b ^ nat (ndigits b n)"
proof (induction b n rule: ndigits.induct)
  case (1 b n)
  show ?case
  proof (cases "n < b")
    case True
    then show ?thesis using 1(2,3) by (simp add: ndigits.simps[of b n])
  next
    case False
    with 1(2) have pos: "0 < n div b"
      by (simp add: pos_imp_zdiv_pos_iff)
    from False 1(2) have nd: "ndigits b n = 1 + ndigits b (n div b)"
      by (simp add: ndigits.simps[of b n])
    from 1(1)[OF _ 1(2) pos] False 1(2)
    have IH: "b ^ nat (ndigits b (n div b) - 1) \<le> n div b" "n div b < b ^ nat (ndigits b (n div b))"
      by auto
    have dm: "n = b * (n div b) + n mod b" by simp
    have r: "0 \<le> n mod b" "n mod b < b" using 1(2) by simp_all
    have k: "nat (ndigits b (n div b)) = Suc (nat (ndigits b (n div b) - 1))"
      using ndigits_pos[of b "n div b"] by simp
    have "b * b ^ nat (ndigits b (n div b) - 1) \<le> b * (n div b)"
      using IH(1) 1(2) by simp
    also have "\<dots> \<le> n"
      using dm r by linarith
    finally have lo: "b ^ nat (ndigits b n - 1) \<le> n"
      by (simp add: nd k)
    have "n div b + 1 \<le> b ^ nat (ndigits b (n div b))"
      using IH(2) by simp
    then have "b * (n div b + 1) \<le> b * b ^ nat (ndigits b (n div b))"
      using 1(2) by simp
    moreover have "n < b * (n div b + 1)"
    proof -
      have "b * (n div b + 1) = b * (n div b) + b" by (simp add: distrib_left)
      with dm r show ?thesis by linarith
    qed
    ultimately have hi: "n < b ^ nat (ndigits b n)"
      using ndigits_pos[of b "n div b"] by (simp add: nd nat_add_distrib)
    show ?thesis using lo hi by simp
  qed
qed

lemma ndigits_powi:
  assumes "1 < b" "0 < n"
  shows "(of_int b :: rat) powi (ndigits b n - 1) \<le> of_int n"
    and "(of_int n :: rat) < of_int b powi ndigits b n"
proof -
  from ndigits_bounds[OF assms]
  have "b ^ nat (ndigits b n - 1) \<le> n" "n < b ^ nat (ndigits b n)" by simp_all
  then have "(of_int (b ^ nat (ndigits b n - 1)) :: rat) \<le> of_int n"
    "(of_int n :: rat) < of_int (b ^ nat (ndigits b n))"
    by (simp_all only: of_int_le_iff of_int_less_iff)
  then show "(of_int b :: rat) powi (ndigits b n - 1) \<le> of_int n"
    and "(of_int n :: rat) < of_int b powi ndigits b n"
    using ndigits_pos[of b n] by (simp_all add: power_int_def)
qed

lemma adjusted_bounds:
  assumes b: "1 < b" and x: "x \<noteq> 0"
  shows "of_int b powi adjusted b x \<le> \<bar>x\<bar>" and "\<bar>x\<bar> < of_int b powi (adjusted b x + 1)"
proof -
  obtain p q where pq: "quotient_of \<bar>x\<bar> = (p, q)" by fastforce
  have q: "0 < q" using quotient_of_denom_pos[OF pq] .
  have xe: "\<bar>x\<bar> = of_int p / of_int q" using quotient_of_div[OF pq] .
  have p: "0 < p"
  proof -
    have "0 < \<bar>x\<bar>" using x by simp
    then have "0 < (of_int p :: rat) / of_int q" by (simp only: xe)
    then show ?thesis using q by (simp add: zero_less_divide_iff)
  qed
  let ?B = "of_int b :: rat"
  have B: "?B \<noteq> 0" "0 < ?B" using b by simp_all
  define dp dq where "dp = ndigits b p" and "dq = ndigits b q"
  note P = ndigits_powi[OF b p, folded dp_def]
  note Q = ndigits_powi[OF b q, folded dq_def]
  have Qpos: "0 < ?B powi (dq - 1)" "0 < ?B powi dq" using B by simp_all
  have "of_int p / of_int q < ?B powi dp / ?B powi (dq - 1)"
    using P(2) Q(1) Qpos p by (intro frac_less) simp_all
  also have "\<dots> = ?B powi (dp - dq + 1)"
    using B by (simp add: power_int_diff[symmetric] algebra_simps)
  finally have hi: "\<bar>x\<bar> < ?B powi (dp - dq + 1)" by (simp only: xe)
  have "?B powi (dp - 1) / ?B powi dq < of_int p / of_int q"
    using P(1) Q(2) q B by (intro frac_less2) simp_all
  moreover have "?B powi (dp - 1) / ?B powi dq = ?B powi (dp - dq - 1)"
    using B by (simp add: power_int_diff[symmetric] algebra_simps)
  ultimately have lo: "?B powi (dp - dq - 1) < \<bar>x\<bar>" by (simp only: xe)
  have adj: "adjusted b x = (if ?B powi (dp - dq) \<le> \<bar>x\<bar> then dp - dq else dp - dq - 1)"
    by (simp add: adjusted_def pq dp_def dq_def)
  show "of_int b powi adjusted b x \<le> \<bar>x\<bar>"
    using lo by (simp add: adj)
  show "\<bar>x\<bar> < of_int b powi (adjusted b x + 1)"
    using hi by (auto simp: adj not_le)
qed

lemma adjusted_less:
  assumes "1 < b" "x \<noteq> 0" "\<bar>x\<bar> < of_int b powi n"
  shows "adjusted b x < n"
proof (rule ccontr)
  assume "\<not> adjusted b x < n"
  then have "n \<le> adjusted b x" by simp
  then have "(of_int b :: rat) powi n \<le> of_int b powi adjusted b x"
    using assms(1) by (intro power_int_increasing) simp_all
  with adjusted_bounds(1)[OF assms(1,2)] assms(3) show False by linarith
qed

lemma adjusted_ge:
  assumes "1 < b" "x \<noteq> 0" "of_int b powi n \<le> \<bar>x\<bar>"
  shows "n \<le> adjusted b x"
proof (rule ccontr)
  assume "\<not> n \<le> adjusted b x"
  then have "adjusted b x + 1 \<le> n" by simp
  then have "(of_int b :: rat) powi (adjusted b x + 1) \<le> of_int b powi n"
    using assms(1) by (intro power_int_increasing) simp_all
  with adjusted_bounds(2)[OF assms(1,2)] assms(3) show False by linarith
qed

lemma adjusted_minus: "adjusted b (- x) = adjusted b x"
  by (simp add: adjusted_def)

lemma rhe_cases:
  "round_half_even y = \<lfloor>y\<rfloor> \<or> round_half_even y = \<lfloor>y\<rfloor> + 1"
  by (simp add: round_half_even_def Let_def)

lemma rhe_error: "\<bar>of_int (round_half_even y) - y\<bar> \<le> 1 / 2"
proof -
  have "of_int \<lfloor>y\<rfloor> \<le> y" "y < of_int \<lfloor>y\<rfloor> + 1" by linarith+
  then show ?thesis
    by (auto simp: round_half_even_def Let_def)
qed

lemma rhe_of_int: "round_half_even (of_int n) = n"
  by (simp add: round_half_even_def)

lemma rhe_ge: "of_int n \<le> y \<Longrightarrow> n \<le> round_half_even y"
proof -
  assume "of_int n \<le> y"
  then have "n \<le> \<lfloor>y\<rfloor>" by (simp add: le_floor_iff)
  then show ?thesis using rhe_cases[of y] by auto
qed

lemma rhe_le: "y \<le> of_int n \<Longrightarrow> round_half_even y \<le> n"
proof -
  assume a: "y \<le> of_int n"
  show ?thesis
  proof (cases "y = of_int n")
    case True
    then show ?thesis by (simp add: rhe_of_int)
  next
    case False
    with a have "y < of_int n" by simp
    then have "\<lfloor>y\<rfloor> < n" by (simp add: floor_less_iff)
    then show ?thesis using rhe_cases[of y] by auto
  qed
qed

lemma rhe_minus: "round_half_even (- y) = - round_half_even y"
proof (cases "y = of_int \<lfloor>y\<rfloor>")
  case True
  then obtain n where "y = of_int n" by blast
  then have "- y = of_int (- n)" by simp
  then show ?thesis unfolding \<open>y = of_int n\<close> by (simp only: rhe_of_int)
next
  case False
  have fl: "of_int \<lfloor>y\<rfloor> \<le> y" "y < of_int \<lfloor>y\<rfloor> + 1" by linarith+
  from False fl(1) have lt: "of_int \<lfloor>y\<rfloor> < y" by linarith
  have fm: "\<lfloor>- y\<rfloor> = - \<lfloor>y\<rfloor> - 1"
    using lt fl(2) by (intro floor_unique) simp_all
  show ?thesis
    using lt fl(2) by (auto simp: round_half_even_def Let_def fm)
qed

lemma powi10_pos: "0 < (10::rat) powi n"
  by simp

lemma powi10_add: "(10::rat) powi (a + b) = 10 powi a * 10 powi b"
  by (simp add: power_int_add)

text \<open>
  The 28-digit coefficient of a positive value: between \<open>10 ^ 27\<close> and \<open>10 ^ 28\<close>, and
  within half a unit in the last place of the value.
\<close>

lemma ctx_digits:
  assumes x: "0 < x"
  defines "s \<equiv> adjusted 10 x - 27"
  defines "c \<equiv> round_half_even (x / 10 powi s)"
  shows "10 ^ 27 \<le> c" and "c \<le> 10 ^ 28"
    and "\<bar>of_int c * 10 powi s - x\<bar> \<le> 10 powi s / 2"
proof -
  define e where "e = adjusted 10 x"
  define z where "z = x / 10 powi s"
  have sp: "0 < (10::rat) powi s" by simp
  have xn: "x \<noteq> 0" using x by simp
  from adjusted_bounds[of 10 x] xn x
  have b1: "10 powi e \<le> x" and b2: "x < 10 powi (e + 1)"
    by (simp_all add: e_def)
  have "e = 27 + s" "e + 1 = 28 + s" by (simp_all add: s_def e_def)
  then have "(10::rat) powi e = 10 powi 27 * 10 powi s"
    "(10::rat) powi (e + 1) = 10 powi 28 * 10 powi s"
    by (simp_all only: powi10_add)
  then have e27: "(10::rat) powi e = 10 ^ 27 * 10 powi s"
    and e28: "(10::rat) powi (e + 1) = 10 ^ 28 * 10 powi s"
    by simp_all
  have xz: "x = z * 10 powi s" by (simp add: z_def)
  have z1: "10 ^ 27 \<le> z"
    using b1 sp unfolding e27 xz by (simp only: mult_le_cancel_right_pos)
  have z2: "z < 10 ^ 28"
    using b2 sp unfolding e28 xz by (simp only: mult_less_cancel_right_pos)
  have cz: "c = round_half_even z" by (simp add: c_def z_def)
  show "10 ^ 27 \<le> c"
    unfolding cz using z1 by (intro rhe_ge) simp
  show "c \<le> 10 ^ 28"
    unfolding cz using z2 by (intro rhe_le) simp
  have "\<bar>of_int c * 10 powi s - x\<bar> = \<bar>of_int c - z\<bar> * 10 powi s"
    unfolding xz using sp by (simp add: left_diff_distrib[symmetric] abs_mult)
  also have "\<dots> \<le> 1 / 2 * 10 powi s"
    using rhe_error[of z] sp unfolding cz by (intro mult_right_mono) simp_all
  finally show "\<bar>of_int c * 10 powi s - x\<bar> \<le> 10 powi s / 2" by simp
qed

text \<open>In the normal range the context returns that coefficient, or raises.\<close>

lemma fix_ctx_value:
  assumes "x \<noteq> 0" "etiny + 27 \<le> adjusted 10 x" "fix_ctx x = Inr y"
  shows "y = of_int (round_half_even (x / 10 powi (adjusted 10 x - 27)))
             * 10 powi (adjusted 10 x - 27)"
proof -
  have mx: "max (adjusted 10 x - (prec - 1)) etiny = adjusted 10 x - 27"
    using assms(2) by (simp add: prec_def)
  show ?thesis
    using assms(1,3) by (simp add: fix_ctx_def mx Let_def split: if_splits)
qed

lemma fix_ctx_pos:
  assumes x: "0 < x" and lo: "etiny + 27 \<le> adjusted 10 x" and hi: "adjusted 10 x < emax"
  shows "fix_ctx x = Inr (of_int (round_half_even (x / 10 powi (adjusted 10 x - 27)))
                          * 10 powi (adjusted 10 x - 27))"
proof -
  define e where "e = adjusted 10 x"
  define s where "s = e - 27"
  define c where "c = round_half_even (x / 10 powi s)"
  define r where "r = of_int c * (10::rat) powi s"
  have sp: "0 < (10::rat) powi s" by simp
  note d = ctx_digits[OF x, folded e_def, folded s_def, folded c_def]
  have rpos: "0 < r"
    using d(1) sp by (simp add: r_def zero_less_mult_iff)
  have "r \<le> 10 ^ 28 * 10 powi s"
  proof -
    have "(of_int c :: rat) \<le> of_int (10 ^ 28)" using d(2) by (simp only: of_int_le_iff)
    then show ?thesis using sp by (simp add: r_def)
  qed
  also have "\<dots> = 10 powi 28 * 10 powi s" by simp
  also have "\<dots> = 10 powi (28 + s)" by (simp only: powi10_add)
  also have "\<dots> < 10 powi (e + 2)"
    by (intro power_int_strict_increasing) (simp_all add: s_def)
  finally have "\<bar>r\<bar> < of_int 10 powi (e + 2)" using rpos by simp
  then have "adjusted 10 r < e + 2"
    using rpos by (intro adjusted_less) simp_all
  then have nov: "\<not> emax < adjusted 10 r" using hi by (simp add: e_def)
  have mx: "max (adjusted 10 x - (prec - 1)) etiny = s"
    using lo by (simp add: prec_def s_def e_def)
  have "fix_ctx x = Inr r"
    using x nov by (simp add: fix_ctx_def mx Let_def r_def c_def)
  then show ?thesis
    by (simp only: r_def c_def s_def e_def)
qed

lemma etiny_le: "etiny \<le> - 1000"
  by (simp add: etiny_def)

lemma emax_ge: "1000 \<le> emax"
  by (simp add: emax_def)

lemma fix_ctx_minus:
  "fix_ctx (- x) = (case fix_ctx x of Inl e \<Rightarrow> Inl e | Inr r \<Rightarrow> Inr (- r))"
proof (cases "x = 0")
  case True
  then show ?thesis by (simp add: fix_ctx_def)
next
  case False
  define s where "s = max (adjusted 10 x - (prec - 1)) etiny"
  define r where "r = of_int (round_half_even (x / 10 powi s)) * (10::rat) powi s"
  have m: "of_int (round_half_even (- x / 10 powi s)) * (10::rat) powi s = - r"
    by (simp add: r_def rhe_minus)
  have a: "fix_ctx x = (if r \<noteq> 0 \<and> emax < adjusted 10 r then Inl DecimalOverflow else Inr r)"
    using False unfolding fix_ctx_def Let_def r_def s_def by (simp only: if_False)
  have "fix_ctx (- x) =
      (if - r \<noteq> 0 \<and> emax < adjusted 10 (- r) then Inl DecimalOverflow else Inr (- r))"
    using False unfolding fix_ctx_def Let_def adjusted_minus m[unfolded s_def]
    by (simp only: neg_equal_0_iff_equal if_False)
  then show ?thesis
    by (simp add: a adjusted_minus)
qed

text \<open>A value with at most 28 significant digits is not changed by the context.\<close>

lemma fix_ctx_exact_range:
  assumes c: "0 < c" "c < 10 ^ 28"
    and lo: "etiny + 27 \<le> adjusted 10 (of_int c * 10 powi k)"
    and hi: "adjusted 10 (of_int c * 10 powi k) < emax"
  shows "fix_ctx (of_int c * 10 powi k) = Inr (of_int c * 10 powi k)"
proof -
  define x :: rat where "x = of_int c * 10 powi k"
  have x: "0 < x" using c(1) by (simp add: x_def zero_less_mult_iff)
  have kp: "0 < (10::rat) powi k" by simp
  have "(of_int c :: rat) < of_int (10 ^ 28)" using c(2) by (simp only: of_int_less_iff)
  then have "x < 10 powi 28 * 10 powi k" unfolding x_def using kp by simp
  then have "\<bar>x\<bar> < of_int 10 powi (28 + k)" using x by (simp add: powi10_add)
  then have e2: "adjusted 10 x < 28 + k" using x by (intro adjusted_less) simp_all
  define s where "s = adjusted 10 x - 27"
  have sk: "s \<le> k" using e2 by (simp add: s_def)
  define n where "n = nat (k - s)"
  have kn: "k = int n + s" using sk by (simp add: n_def)
  have "(10::rat) powi (int n + s) = 10 powi int n * 10 powi s"
    by (rule powi10_add)
  then have ks: "(10::rat) powi k = 10 ^ n * 10 powi s"
    by (simp add: kn)
  have "x / 10 powi s = of_int (c * 10 ^ n)"
    unfolding x_def ks by simp
  then have rz: "round_half_even (x / 10 powi s) = c * 10 ^ n"
    by (simp only: rhe_of_int)
  have "fix_ctx x = Inr (of_int (round_half_even (x / 10 powi s)) * 10 powi s)"
    unfolding s_def using lo hi by (intro fix_ctx_pos[OF x]) (simp_all add: x_def)
  also have "of_int (round_half_even (x / 10 powi s)) * 10 powi s
      = of_int (c * 10 ^ n) * 10 powi s"
    by (simp only: rz)
  also have "\<dots> = x"
    unfolding x_def ks by simp
  finally show ?thesis by (simp only: x_def)
qed

lemma fix_ctx_exact:
  assumes c: "0 < c" "c < 10 ^ 28" and k: "etiny + 27 \<le> k" "k + 28 < emax"
  shows "fix_ctx (of_int c * 10 powi k) = Inr (of_int c * 10 powi k)"
proof -
  define x :: rat where "x = of_int c * 10 powi k"
  have x: "0 < x" using c(1) by (simp add: x_def zero_less_mult_iff)
  have kp: "0 < (10::rat) powi k" by simp
  have "(1::rat) \<le> of_int c" using c(1) by simp
  then have "1 * 10 powi k \<le> x" unfolding x_def using kp
    by (intro mult_right_mono) simp_all
  then have "of_int 10 powi k \<le> \<bar>x\<bar>" using x by simp
  then have e1: "k \<le> adjusted 10 x" using x by (intro adjusted_ge) simp_all
  have "(of_int c :: rat) < of_int (10 ^ 28)" using c(2) by (simp only: of_int_less_iff)
  then have "x < 10 powi 28 * 10 powi k" unfolding x_def using kp by simp
  then have "\<bar>x\<bar> < of_int 10 powi (28 + k)" using x by (simp add: powi10_add)
  then have e2: "adjusted 10 x < 28 + k" using x by (intro adjusted_less) simp_all
  show ?thesis
    using c e1 e2 k by (intro fix_ctx_exact_range) (simp_all add: x_def)
qed

lemma fix_ctx_ge:
  assumes x: "0 < x" and n: "10 powi n \<le> x" "etiny + 27 \<le> n" and y: "fix_ctx x = Inr y"
  shows "10 powi n \<le> y"
proof -
  define e where "e = adjusted 10 x"
  have ne: "n \<le> e"
    unfolding e_def using x n(1) by (intro adjusted_ge) simp_all
  note d = ctx_digits[OF x, folded e_def]
  have yv: "y = of_int (round_half_even (x / 10 powi (e - 27))) * 10 powi (e - 27)"
    unfolding e_def using x n(2) ne y by (intro fix_ctx_value) (simp_all add: e_def)
  have "(10::rat) powi n \<le> 10 powi e"
    using ne by (intro power_int_increasing) simp_all
  also have "\<dots> = 10 powi (27 + (e - 27))" by simp
  also have "\<dots> = 10 ^ 27 * 10 powi (e - 27)" by (simp only: powi10_add) simp
  also have "\<dots> \<le> y"
  proof -
    have "(of_int (10 ^ 27) :: rat) \<le> of_int (round_half_even (x / 10 powi (e - 27)))"
      using d(1) by (simp only: of_int_le_iff)
    then show ?thesis unfolding yv by (intro mult_right_mono) simp_all
  qed
  finally show ?thesis .
qed

lemma quantize2_ge:
  assumes "1 / 100 \<le> x" "quantize2 x = Inr v"
  shows "1 / 100 \<le> v"
proof -
  have "1 \<le> x * 100" using assms(1) by simp
  then have "1 \<le> \<lfloor>x * 100 + 1 / 2\<rfloor>" by (simp add: le_floor_iff)
  then have "1 \<le> round_half_up (x * 100)"
    using assms(1) by (simp add: round_half_up_def)
  moreover have "v = of_int (round_half_up (x * 100)) / 100"
    using assms(2) by (simp add: quantize2_def Let_def split: if_splits)
  ultimately show ?thesis by simp
qed

lemma round_double_pos:
  assumes x: "0 < x"
  shows "0 < round_double x"
proof -
  define s where "s = adjusted 2 x - 52"
  have sp: "0 < (2::rat) powi s" by simp
  from adjusted_bounds(1)[of 2 x] x have "2 powi (52 + s) \<le> x"
    by (simp add: s_def)
  then have "2 powi 52 * 2 powi s \<le> x"
    by (simp add: power_int_add)
  then have "2 ^ 52 \<le> x / 2 powi s"
    using sp by (simp add: pos_le_divide_eq)
  then have "2 ^ 52 \<le> round_half_even (x / 2 powi s)"
    by (intro rhe_ge) simp
  then have "0 < round_half_even (x / 2 powi s)" by simp
  then show ?thesis
    using x by (simp add: round_double_def s_def Let_def zero_less_mult_iff)
qed

lemma reachable_admitted: "reachable s \<Longrightarrow> \<forall>t\<in>set (trades s). admitted t"
proof (induction rule: reachable.induct)
  case (common symb d par s)
  then show ?case
    by (auto simp: CommonStock_init_def Stock_init_def split: if_splits)
next
  case (preferred symb d pct par s)
  then show ?case
    by (auto simp: PreferredStock_init_def Stock_init_def split: if_splits)
next
  case (trade s now qty ind price)
  then show ?case
    by (auto simp: record_trade_def admitted_def Let_def)
qed

lemma admitted_sums:
  assumes "\<forall>t\<in>set ts. admitted t" "ts \<noteq> []"
  shows "0 < total_qty ts" and "total_qty ts \<le> weighted ts"
  unfolding total_qty_def weighted_def
proof -
  have "0 \<le> sum_list (map quantity ts)
      \<and> (ts \<noteq> [] \<longrightarrow> 0 < sum_list (map quantity ts))
      \<and> sum_list (map quantity ts) \<le> sum_list (map (\<lambda>t. quantity t * price_pennies t) ts)"
    using assms(1)
  proof (induction ts)
    case Nil
    then show ?case by simp
  next
    case (Cons t ts)
    then have q: "0 < quantity t" and p: "1 \<le> price_pennies t"
      by (simp_all add: admitted_def)
    have "quantity t * 1 \<le> quantity t * price_pennies t"
      using q p by (intro mult_left_mono) simp_all
    then have m: "quantity t \<le> quantity t * price_pennies t"
      by (simp only: mult_1_right)
    from Cons have IH: "0 \<le> sum_list (map quantity ts)"
      "sum_list (map quantity ts) \<le> sum_list (map (\<lambda>t. quantity t * price_pennies t) ts)"
      by simp_all
    have "quantity t + sum_list (map quantity ts)
        \<le> quantity t * price_pennies t + sum_list (map (\<lambda>t. quantity t * price_pennies t) ts)"
      using m IH(2) by (rule add_mono)
    then show ?case using q IH(1) by simp
  qed
  with assms(2) show "0 < sum_list (map quantity ts)"
    and "sum_list (map quantity ts) \<le> sum_list (map (\<lambda>t. quantity t * price_pennies t) ts)"
    by simp_all
qed

lemma vwap_of_at_least_one_penny:
  assumes adm: "\<forall>t\<in>set ts. admitted t" and v: "vwap_of ts = Inr (Some v)"
  shows "1 / 100 \<le> v"
proof -
  from v have ne: "ts \<noteq> []"
    by (auto simp: vwap_of_def)
  note sums = admitted_sums[OF adm ne]
  define x :: rat where "x = of_int (weighted ts) / of_int (total_qty ts)"
  from v ne sums(1) obtain a b where
    a: "fix_ctx x = Inr a" and b: "fix_ctx (a / 100) = Inr b" and q: "quantize2 b = Inr v"
    by (auto simp: vwap_of_def dec_div_def x_def split: sum.splits if_splits)
  have "(of_int (total_qty ts) :: rat) \<le> of_int (weighted ts)"
    using sums(2) by (simp only: of_int_le_iff)
  then have x1: "1 \<le> x"
    using sums(1) by (simp add: x_def pos_le_divide_eq)
  have x0: "0 < x" "10 powi 0 \<le> x" using x1 by simp_all
  have e0: "etiny + 27 \<le> 0" using etiny_le by simp
  have "10 powi 0 \<le> a"
    using x0 e0 a by (rule fix_ctx_ge)
  then have a1: "1 \<le> a" by simp
  have p2: "(10::rat) powi (- 2) = 1 / 100"
    by (simp add: power_int_def power2_eq_square)
  have a100: "0 < a / 100" "10 powi (- 2) \<le> a / 100"
    using a1 by (simp_all add: p2)
  have e2: "etiny + 27 \<le> - 2" using etiny_le by simp
  have "10 powi (- 2) \<le> b"
    using a100 e2 b by (rule fix_ctx_ge)
  then have "1 / 100 \<le> b" by (simp only: p2)
  then show ?thesis using q by (rule quantize2_ge)
qed

lemma tea0_init: "CommonStock_init ''TEA'' 0 10000 = Inr tea0"
  by (simp add: CommonStock_init_def Stock_init_def tea0_def)

lemma tea2_recorded:
  "snd (record_trade (snd (record_trade tea0 demo_t0 1000 BUY 9550)) (demo_t0 + 1) 2000 SELL 10230)
     = tea2"
  by (simp add: record_trade_def Let_def int_true_div_overflows_def tea2_def tea0_def
      tea_trades_def)

lemma tea2_reachable: "reachable tea2"
proof -
  have "reachable tea0" using tea0_init by (rule reachable.common)
  then have "reachable (snd (record_trade tea0 demo_t0 1000 BUY 9550))"
    by (rule reachable.trade)
  then have "reachable (snd (record_trade (snd (record_trade tea0 demo_t0 1000 BUY 9550))
      (demo_t0 + 1) 2000 SELL 10230))"
    by (rule reachable.trade)
  then show ?thesis by (simp only: tea2_recorded)
qed

lemma tea2_vwsp: "volume_weighted_stock_price tea2 (demo_t0 + 2) 5 = Inr (Some (10003 / 100))"
  by code_simp


lemma demo_cutoff: "cutoff_time (demo_t0 + 2) 5 = Inr (demo_t0 + 2 - 300000000)"
  by (simp add: cutoff_time_def timedelta_minutes_def datetime_sub_def Let_def datetime_ok_def
      us_per_day_def demo_t0_def)

text \<open>What the constructors do check.\<close>

lemma CommonStock_init_ok:
  "(\<exists>s. CommonStock_init symb d par = Inr s)
     \<longleftrightarrow> 1 \<le> length symb \<and> length symb \<le> 10 \<and> 0 < par \<and> 0 \<le> d"
  by (cases symb) (auto simp: CommonStock_init_def Stock_init_def)

lemma PreferredStock_init_ok:
  "(\<exists>s. PreferredStock_init symb d pct par = Inr s)
     \<longleftrightarrow> 1 \<le> length symb \<and> length symb \<le> 10 \<and> 0 < par \<and> in_rate_range pct"
  by (cases symb) (auto simp: PreferredStock_init_def Stock_init_def)

lemma record_trade_validates:
  assumes "price < 2 ^ 1000"
  shows "fst (record_trade s now qty ind price) = Inl ValueError \<longleftrightarrow> qty \<le> 0 \<or> price \<le> 0"
    and "qty \<le> 0 \<or> price \<le> 0 \<Longrightarrow> snd (record_trade s now qty ind price) = s"
    and "0 < qty \<Longrightarrow> 0 < price \<Longrightarrow>
         record_trade s now qty ind price
           = (Inr (), s\<lparr>trades := trades s @ [\<lparr>timestamp = now, quantity = qty,
                indicator = ind, price_pennies = price\<rparr>]\<rparr>)"
proof -
  have "\<bar>(of_int price :: rat) / of_int 100\<bar> < 2 ^ 1024 - 2 ^ 970" if "0 < price"
  proof -
    have "(of_int price :: rat) < of_int (2 ^ 1000)"
      using assms by (simp only: of_int_less_iff)
    then show ?thesis using that by simp
  qed
  then have no: "0 < price \<Longrightarrow> \<not> int_true_div_overflows price 100"
    by (simp add: int_true_div_overflows_def not_le)
  show "fst (record_trade s now qty ind price) = Inl ValueError \<longleftrightarrow> qty \<le> 0 \<or> price \<le> 0"
    using no by (auto simp: record_trade_def Let_def)
  show "qty \<le> 0 \<or> price \<le> 0 \<Longrightarrow> snd (record_trade s now qty ind price) = s"
    by (auto simp: record_trade_def)
  show "0 < qty \<Longrightarrow> 0 < price \<Longrightarrow>
         record_trade s now qty ind price
           = (Inr (), s\<lparr>trades := trades s @ [\<lparr>timestamp = now, quantity = qty,
                indicator = ind, price_pennies = price\<rparr>]\<rparr>)"
    using no by (simp add: record_trade_def Let_def)
qed

lemma round_double_minus: "round_double (- x) = - round_double x"
  by (simp add: round_double_def Let_def adjusted_minus rhe_minus)

lemma round_double_pos_iff: "0 < round_double x \<longleftrightarrow> 0 < x"
proof (cases "0 < x")
  case True
  then show ?thesis by (simp add: round_double_pos)
next
  case False
  show ?thesis
  proof (cases "x = 0")
    case True
    then show ?thesis by (simp add: round_double_def)
  next
    case nz: False
    with False have "0 < - x" by simp
    then have "0 < round_double (- x)" by (rule round_double_pos)
    then show ?thesis using False by (simp add: round_double_minus)
  qed
qed

lemma float_of_vwsp_pos_iff: "0 < float_of_vwsp r \<longleftrightarrow> (\<exists>v. r = Some v \<and> 0 < v)"
  by (cases r) (auto simp: float_of_vwsp_def float_of_dec_def round_double_pos_iff)

lemma float_of_vwsp_Some: "0 < v \<Longrightarrow> float_of_vwsp (Some v) = float_of_dec v"
  by (simp add: float_of_vwsp_def)

lemma collect_vwsps_qualifying:
  "collect_vwsps clock i ss = Inr vs
     \<Longrightarrow> filter (\<lambda>v. 0 < v) vs = map float_of_dec (qualifying_vwsps clock i ss)"
proof (induction ss arbitrary: i vs)
  case Nil
  then show ?case by simp
next
  case (Cons s ss)
  from Cons.prems obtain r vs' where
    r: "volume_weighted_stock_price s (clock i) 5 = Inr r"
    and vs': "collect_vwsps clock (Suc i) ss = Inr vs'"
    and vs: "vs = float_of_vwsp r # vs'"
    by (auto split: sum.splits)
  note IH = Cons.IH[OF vs']
  show ?case
  proof (cases "\<exists>v. r = Some v \<and> 0 < v")
    case True
    then obtain v where v: "r = Some v" "0 < v" by blast
    then show ?thesis
      using IH r by (simp add: vs float_of_vwsp_Some float_of_dec_def round_double_pos_iff)
  next
    case False
    then have "\<not> 0 < float_of_vwsp r" by (simp add: float_of_vwsp_pos_iff)
    moreover have "qualifying_vwsps clock i (s # ss) = qualifying_vwsps clock (Suc i) ss"
      using False r by (cases r) auto
    ultimately show ?thesis using IH by (simp add: vs)
  qed
qed

lemma none_qualify:
  assumes "\<forall>j<length ss. \<exists>r. volume_weighted_stock_price (ss ! j) (clock (i + j)) 5 = Inr r
             \<and> (r = None \<or> (\<exists>v. r = Some v \<and> v \<le> 0))"
  shows "(\<exists>vs. collect_vwsps clock i ss = Inr vs) \<and> qualifying_vwsps clock i ss = []"
  using assms
proof (induction ss arbitrary: i)
  case Nil
  then show ?case by simp
next
  case (Cons s ss)
  from Cons.prems[rule_format, of 0] obtain r where
    r: "volume_weighted_stock_price s (clock i) 5 = Inr r"
    and nq: "r = None \<or> (\<exists>v. r = Some v \<and> v \<le> 0)"
    by auto
  have "\<forall>j<length ss. \<exists>r. volume_weighted_stock_price (ss ! j) (clock (Suc i + j)) 5 = Inr r
             \<and> (r = None \<or> (\<exists>v. r = Some v \<and> v \<le> 0))"
  proof (intro allI impI)
    fix j assume "j < length ss"
    then have "Suc j < length (s # ss)" by simp
    from Cons.prems[rule_format, OF this] show "\<exists>r. volume_weighted_stock_price (ss ! j)
        (clock (Suc i + j)) 5 = Inr r \<and> (r = None \<or> (\<exists>v. r = Some v \<and> v \<le> 0))"
      by simp
  qed
  from Cons.IH[OF this] obtain vs where
    vs: "collect_vwsps clock (Suc i) ss = Inr vs" and q: "qualifying_vwsps clock (Suc i) ss = []"
    by blast
  show ?case
    using r nq vs q by auto
qed

lemma no_trades_vwsp:
  "trades s = [] \<Longrightarrow> volume_weighted_stock_price s (demo_t0 + 2) 5 = Inr None"
  by (simp add: volume_weighted_stock_price_def demo_cutoff recent_trades_def vwap_of_def)

text \<open>
  In the normal range the context returns a value within half a unit in the 28th digit,
  and the value itself when it has at most 28 significant digits.
\<close>

lemma fix_ctx_normal_pos:
  assumes x: "0 < x" and lo: "etiny + 27 \<le> adjusted 10 x" and hi: "adjusted 10 x < emax"
  shows "\<exists>r. fix_ctx x = Inr r \<and> \<bar>r - x\<bar> \<le> x / (2 * 10 ^ 27)
           \<and> \<bar>r - x\<bar> \<le> 10 powi (adjusted 10 x - 27) / 2
           \<and> (\<forall>c k. x = of_int c * 10 powi k \<and> \<bar>c\<bar> < 10 ^ 28 \<longrightarrow> r = x)"
proof -
  define e where "e = adjusted 10 x"
  define r where "r = of_int (round_half_even (x / 10 powi (e - 27))) * (10::rat) powi (e - 27)"
  have fx: "fix_ctx x = Inr r"
    unfolding r_def e_def using x lo hi by (rule fix_ctx_pos)
  have err: "\<bar>r - x\<bar> \<le> 10 powi (e - 27) / 2"
    unfolding r_def e_def using x by (rule ctx_digits(3))
  have "10 powi e \<le> x"
    using adjusted_bounds(1)[of 10 x] x by (simp add: e_def)
  moreover have "(10::rat) powi e = 10 powi (27 + (e - 27))" by simp
  then have "(10::rat) powi e = 10 ^ 27 * 10 powi (e - 27)"
    by (simp only: powi10_add) simp
  ultimately have "10 powi (e - 27) \<le> x / 10 ^ 27"
    by (simp add: pos_le_divide_eq mult.commute)
  with err have rel: "\<bar>r - x\<bar> \<le> x / (2 * 10 ^ 27)" by simp
  have ex: "r = x" if h: "x = of_int c * 10 powi k \<and> \<bar>c\<bar> < 10 ^ 28" for c k
  proof -
    have "0 < (of_int c :: rat) * 10 powi k" using x h by simp
    then have cp: "0 < c"
      using powi10_pos[of k] by (simp add: zero_less_mult_iff not_less[symmetric] less_imp_le)
    with h have c28: "c < 10 ^ 28" by simp
    have "fix_ctx (of_int c * 10 powi k) = Inr (of_int c * 10 powi k)"
      using cp c28 lo hi h by (intro fix_ctx_exact_range) simp_all
    with fx h show ?thesis by simp
  qed
  show ?thesis
    using fx rel err ex unfolding e_def by blast
qed

lemma fix_ctx_normal:
  assumes x: "x \<noteq> 0" and lo: "etiny + 27 \<le> adjusted 10 x" and hi: "adjusted 10 x < emax"
  shows "\<exists>r. fix_ctx x = Inr r \<and> \<bar>r - x\<bar> \<le> \<bar>x\<bar> / (2 * 10 ^ 27)
           \<and> (\<forall>c k. x = of_int c * 10 powi k \<and> \<bar>c\<bar> < 10 ^ 28 \<longrightarrow> r = x)"
proof (cases "0 < x")
  case True
  from fix_ctx_normal_pos[OF True lo hi] True show ?thesis by auto
next
  case False
  with x have nx: "0 < - x" by simp
  from fix_ctx_normal_pos[OF nx] lo hi obtain r where
    r: "fix_ctx (- x) = Inr r" "\<bar>r - (- x)\<bar> \<le> (- x) / (2 * 10 ^ 27)"
    "\<forall>c k. - x = of_int c * 10 powi k \<and> \<bar>c\<bar> < 10 ^ 28 \<longrightarrow> r = - x"
    by (auto simp: adjusted_minus)
  have fx: "fix_ctx x = Inr (- r)"
    using fix_ctx_minus[of "- x"] r(1) by simp
  have "\<bar>- r - x\<bar> = \<bar>r - (- x)\<bar>" by simp
  then have err: "\<bar>- r - x\<bar> \<le> \<bar>x\<bar> / (2 * 10 ^ 27)"
    using r(2) nx by simp
  have ex: "- r = x" if h: "x = of_int c * 10 powi k \<and> \<bar>c\<bar> < 10 ^ 28" for c k
  proof -
    from h have "- x = of_int (- c) * 10 powi k \<and> \<bar>- c\<bar> < 10 ^ 28" by simp
    with r(3) have "r = - x" by blast
    then show ?thesis by simp
  qed
  show ?thesis using fx err ex by blast
qed

lemma adjusted_in_range:
  assumes "x \<noteq> 0" "10 powi l \<le> \<bar>x\<bar>" "\<bar>x\<bar> < 10 powi h" "- 900 \<le> l" "h \<le> 900"
  shows "etiny + 27 \<le> adjusted 10 x" and "adjusted 10 x < emax"
proof -
  have "l \<le> adjusted 10 x"
    using assms(1,2) by (intro adjusted_ge) simp_all
  then show "etiny + 27 \<le> adjusted 10 x"
    using etiny_le assms(4) by simp
  have "adjusted 10 x < h"
    using assms(1,3) by (intro adjusted_less) simp_all
  then show "adjusted 10 x < emax"
    using emax_ge assms(5) by simp
qed

lemma quotient_range:
  fixes p d :: int
  assumes "0 < p" "p < 10 ^ 28" "d \<noteq> 0" "\<bar>d\<bar> < 10 ^ 28"
  shows "10 powi (- 28) \<le> \<bar>(of_int p :: rat) / of_int d\<bar>"
    and "\<bar>(of_int p :: rat) / of_int d\<bar> < 10 powi 28"
proof -
  have d1: "(1::rat) \<le> \<bar>of_int d\<bar>" and d2: "\<bar>of_int d :: rat\<bar> < 10 ^ 28"
    using assms(3,4) by (simp_all flip: of_int_abs)
  have p1: "(1::rat) \<le> of_int p" and p2: "(of_int p :: rat) < 10 ^ 28"
    using assms(1,2) by (simp_all flip: of_int_abs)
  have "(1::rat) / 10 ^ 28 \<le> of_int p / \<bar>of_int d\<bar>"
    using p1 d1 d2 by (intro frac_le) simp_all
  then show "10 powi (- 28) \<le> \<bar>(of_int p :: rat) / of_int d\<bar>"
    using assms(1) by (simp add: power_int_minus_divide)
  have "of_int p / \<bar>of_int d\<bar> \<le> (of_int p :: rat) / 1"
    using p1 d1 by (intro frac_le) simp_all
  then show "\<bar>(of_int p :: rat) / of_int d\<bar> < 10 powi 28"
    using p2 assms(1) by simp
qed

text \<open>
  Rounding half-up to an integer is not changed by a perturbation of the quotient
  \<open>N / D\<close> that is smaller than \<open>1 / (2 D)\<close> and leaves exact ties alone.
\<close>

lemma round_half_up_stable:
  fixes N D :: int and y :: rat
  assumes D: "0 < D" and N: "0 \<le> N" and y0: "0 \<le> y"
    and close: "\<bar>y - of_int N / of_int D\<bar> < 1 / (2 * of_int D)"
    and tie: "\<And>n. 2 * N = (2 * n + 1) * D \<Longrightarrow> y = of_int N / of_int D"
  shows "round_half_up y = round_half_up (of_int N / of_int D)"
proof -
  define x :: rat where "x = of_int N / of_int D"
  define n where "n = \<lfloor>x + 1 / 2\<rfloor>"
  have Dr: "0 < (of_int D :: rat)" using D by simp
  have x0: "0 \<le> x" using N D by (simp add: x_def)
  have xN: "x * of_int D = of_int N" using D by (simp add: x_def)
  have fl: "of_int n \<le> x + 1 / 2" "x + 1 / 2 < of_int n + 1"
    unfolding n_def by linarith+
  have "(of_int n - 1 / 2) * (2 * of_int D) \<le> x * (2 * of_int D)"
    using fl(1) Dr by (intro mult_right_mono) simp_all
  then have "(of_int ((2 * n - 1) * D) :: rat) \<le> of_int (2 * N)"
    using xN by (simp add: algebra_simps)
  then have lo_int: "(2 * n - 1) * D \<le> 2 * N" by (simp only: of_int_le_iff)
  have "x * (2 * of_int D) < (of_int n + 1 / 2) * (2 * of_int D)"
    using fl(2) Dr by (intro mult_strict_right_mono) simp_all
  then have "(of_int (2 * N) :: rat) < of_int ((2 * n + 1) * D)"
    using xN by (simp add: algebra_simps)
  then have "2 * N < (2 * n + 1) * D" by (simp only: of_int_less_iff)
  then have "2 * N + 1 \<le> (2 * n + 1) * D" by simp
  then have "(of_int (2 * N + 1) :: rat) \<le> of_int ((2 * n + 1) * D)"
    by (simp only: of_int_le_iff)
  then have "x * (2 * of_int D) + 1 \<le> (of_int n + 1 / 2) * (2 * of_int D)"
    using xN by (simp add: algebra_simps)
  then have "(x * (2 * of_int D) + 1) / (2 * of_int D) \<le> of_int n + 1 / 2"
    using Dr by (simp add: pos_divide_le_eq)
  then have up: "x + 1 / (2 * of_int D) \<le> of_int n + 1 / 2"
    using Dr by (simp add: add_divide_distrib)
  have cl: "y < x + 1 / (2 * of_int D)" "x - 1 / (2 * of_int D) < y"
    using close unfolding x_def by (simp_all add: abs_less_iff algebra_simps)
  have hi: "y + 1 / 2 < of_int n + 1"
    using cl(1) up by linarith
  have lo: "of_int n \<le> y + 1 / 2"
  proof (cases "2 * N = (2 * (n - 1) + 1) * D")
    case True
    then have "y = x" unfolding x_def by (rule tie)
    then show ?thesis using fl(1) by simp
  next
    case False
    with lo_int have "(2 * n - 1) * D + 1 \<le> 2 * N" by (simp add: algebra_simps)
    then have "(of_int ((2 * n - 1) * D + 1) :: rat) \<le> of_int (2 * N)"
      by (simp only: of_int_le_iff)
    then have "(of_int n - 1 / 2) * (2 * of_int D) + 1 \<le> x * (2 * of_int D)"
      using xN by (simp add: algebra_simps)
    then have "((of_int n - 1 / 2) * (2 * of_int D) + 1) / (2 * of_int D) \<le> x"
      using Dr by (simp add: pos_divide_le_eq)
    then have "of_int n - 1 / 2 + 1 / (2 * of_int D) \<le> x"
      using Dr by (simp add: add_divide_distrib)
    then show ?thesis using cl(2) by linarith
  qed
  have "\<lfloor>y + 1 / 2\<rfloor> = n"
    using lo hi by (intro floor_unique) simp_all
  then show ?thesis
    using y0 x0 by (simp add: round_half_up_def n_def x_def)
qed

text \<open>A result of the context has at most 28 significant digits.\<close>

lemma fix_ctx_representable:
  assumes x: "0 < x" and lo: "etiny + 27 \<le> adjusted 10 x" and r: "fix_ctx x = Inr r"
  shows "\<exists>c k. r = of_int c * 10 powi k \<and> 0 < c \<and> c < 10 ^ 28"
proof -
  define s where "s = adjusted 10 x - 27"
  define c where "c = round_half_even (x / 10 powi s)"
  note d = ctx_digits[OF x, folded s_def, folded c_def]
  have rv: "r = of_int c * 10 powi s"
    unfolding c_def s_def using x lo r by (intro fix_ctx_value) simp_all
  show ?thesis
  proof (cases "c = 10 ^ 28")
    case True
    have "(10::rat) powi (28 + s) = 10 powi 28 * 10 powi s" by (rule powi10_add)
    then have "r = of_int 1 * 10 powi (28 + s)"
      by (simp add: rv True)
    moreover have "(0::int) < 1 \<and> (1::int) < 10 ^ 28" by simp
    ultimately show ?thesis by blast
  next
    case False
    with d(1,2) have "0 < c \<and> c < 10 ^ 28" by simp
    with rv show ?thesis by blast
  qed
qed

lemma powi10_shift2: "of_int c * (10::rat) powi (k - 2) = of_int c * 10 powi k / 100"
proof -
  have "(10::rat) powi (k + (- 2)) = 10 powi k * 10 powi (- 2)" by (rule powi10_add)
  moreover have "(10::rat) powi (- 2) = 1 / 100"
    by (simp add: power_int_def power2_eq_square)
  ultimately show ?thesis by simp
qed

lemma round_half_up_bounds:
  assumes "0 \<le> y"
  shows "0 \<le> round_half_up y" and "of_int (round_half_up y) \<le> y + 1 / 2"
proof -
  have r: "round_half_up y = \<lfloor>y + 1 / 2\<rfloor>" using assms by (simp add: round_half_up_def)
  show "0 \<le> round_half_up y" unfolding r using assms by (simp add: zero_le_floor)
  show "of_int (round_half_up y) \<le> y + 1 / 2" unfolding r by linarith
qed

lemma vwap_of_single_rounding:
  assumes adm: "\<forall>t\<in>set ts. admitted t" and ne: "ts \<noteq> []" and bound: "weighted ts < 10 ^ 27"
  shows "vwap_of ts
       = Inr (Some (round2_half_up (of_int (weighted ts) / of_int (total_qty ts) / 100)))"
proof -
  define W where "W = weighted ts"
  define Q where "Q = total_qty ts"
  define x :: rat where "x = of_int W / of_int Q"
  note sums = admitted_sums[OF adm ne, folded W_def Q_def]
  have Qr: "(1::rat) \<le> of_int Q" "0 < (of_int Q :: rat)" using sums(1) by simp_all
  have Wr: "(of_int Q :: rat) \<le> of_int W" "(of_int W :: rat) < 10 ^ 27"
    using sums(2) bound by (simp_all add: W_def flip: of_int_le_iff of_int_less_iff)
  have x1: "1 \<le> x" using Wr(1) Qr(2) by (simp add: x_def pos_le_divide_eq)
  have "x \<le> of_int W / 1"
    unfolding x_def using Wr(1) Qr by (intro frac_le) simp_all
  then have x27: "x < 10 ^ 27" using Wr(2) by simp
  have xpos: "0 < x" using x1 by simp
  have rg: "etiny + 27 \<le> adjusted 10 x" "adjusted 10 x < emax"
    using adjusted_in_range[of x 0 27] x1 x27 by simp_all
  from fix_ctx_normal_pos[OF xpos rg] obtain a where
    a: "fix_ctx x = Inr a" and err: "\<bar>a - x\<bar> \<le> x / (2 * 10 ^ 27)"
    and exact: "\<forall>c k. x = of_int c * 10 powi k \<and> \<bar>c\<bar> < 10 ^ 28 \<longrightarrow> a = x"
    by blast
  have "10 powi 0 \<le> a"
    using xpos _ _ a by (rule fix_ctx_ge) (use x1 etiny_le in simp_all)
  then have a1: "1 \<le> a" by simp
  have "x / (2 * 10 ^ 27) \<le> x" using xpos by (simp add: pos_divide_le_eq)
  with err have "\<bar>a - x\<bar> \<le> x" by (rule order_trans)
  then have "a \<le> 2 * x" by linarith
  with x27 have a28: "a < 2 * 10 ^ 27" by simp
  from fix_ctx_representable[OF xpos rg(1) a] obtain c k where
    ck: "a = of_int c * 10 powi k" "0 < c" "c < 10 ^ 28" by blast
  have a100: "a / 100 = of_int c * 10 powi (k - 2)"
    by (simp only: ck(1) powi10_shift2)
  have rg2: "etiny + 27 \<le> adjusted 10 (a / 100)" "adjusted 10 (a / 100) < emax"
    using adjusted_in_range[of "a / 100" "- 2" 26] a1 a28
    by (simp_all add: power_int_minus_divide)
  have b: "fix_ctx (a / 100) = Inr (a / 100)"
    unfolding a100 using ck(2,3) rg2 by (intro fix_ctx_exact_range) (simp_all add: a100)
  have stable: "round_half_up a = round_half_up (of_int W / of_int Q)"
  proof (rule round_half_up_stable)
    show "0 < Q" using sums(1) .
    show "0 \<le> W" using sums by simp
    show "0 \<le> a" using a1 by simp
    have "x / (2 * 10 ^ 27) < 1 / (2 * of_int Q)"
      using Wr(2) Qr(2) by (simp add: x_def field_simps)
    with err show "\<bar>a - of_int W / of_int Q\<bar> < 1 / (2 * of_int Q)"
      by (simp add: x_def)
  next
    fix n assume t: "2 * W = (2 * n + 1) * Q"
    have pos: "0 < 2 * n + 1"
    proof (rule ccontr)
      assume "\<not> 0 < 2 * n + 1"
      then have "(2 * n + 1) * Q \<le> 0" using sums(1) by (simp add: mult_le_0_iff)
      with t sums show False by simp
    qed
    have "(2 * n + 1) * 1 \<le> (2 * n + 1) * Q"
      using pos sums(1) by (intro mult_left_mono) simp_all
    then have "2 * n + 1 \<le> 2 * W" by (simp only: t mult_1_right)
    moreover have "W < 10 ^ 27" using bound by (simp only: W_def)
    ultimately have small: "\<bar>(2 * n + 1) * 5\<bar> < 10 ^ 28"
      using pos by simp
    have "(of_int (2 * W) :: rat) = of_int ((2 * n + 1) * Q)" by (simp only: t)
    then have "x = of_int (2 * n + 1) / 2"
      using Qr(2) by (simp add: x_def field_simps)
    then have "x = of_int ((2 * n + 1) * 5) * 10 powi (- 1)"
      by (simp add: power_int_minus_divide)
    with small exact have "a = x" by blast
    then show "a = of_int W / of_int Q" by (simp add: x_def)
  qed
  define v where "v = round_half_up x"
  have v: "0 \<le> v" "(of_int v :: rat) \<le> x + 1 / 2"
    unfolding v_def using xpos by (simp_all add: round_half_up_bounds)
  have "(of_int v :: rat) < of_int (10 ^ 28)"
    using v(2) x27 by simp
  then have "v < 10 ^ 28" by (simp only: of_int_less_iff)
  then have v28: "\<bar>v\<bar> < 10 ^ 28" using v(1) by simp
  have q: "quantize2 (a / 100) = Inr (of_int v / 100)"
    using a1 a28 v28 stable by (simp add: quantize2_def Let_def v_def x_def)
  have "vwap_of ts = Inr (Some (of_int v / 100))"
    using ne sums(1) a b q
    by (simp add: vwap_of_def dec_div_def W_def[symmetric] Q_def[symmetric] x_def[symmetric])
  moreover have "round2_half_up (x / 100) = of_int v / 100"
    by (simp add: round2_half_up_def v_def)
  ultimately show ?thesis by (simp add: x_def W_def Q_def)
qed

lemma huge_vwsp: "volume_weighted_stock_price huge (demo_t0 + 2) 5 = Inr (Some (2 / 100))"
  by code_simp

lemma huge_single_rounding:
  "round2_half_up (of_int (weighted (trades huge)) / of_int (total_qty (trades huge)) / 100)
     = 1 / 100"
  by code_simp

lemma tea2_single_rounding:
  "round2_half_up (of_int (weighted (trades tea2)) / of_int (total_qty (trades tea2)) / 100)
     = 10003 / 100"
  by code_simp

lemma tea2_in_window:
  "\<forall>t\<in>set (trades tea2). demo_t0 + 2 - 300000000 \<le> timestamp t \<and> admitted t"
  by (simp add: tea2_def tea_trades_def admitted_def)

lemma tea2_weighted: "weighted (trades tea2) < 10 ^ 27" "trades tea2 \<noteq> []"
  by (simp_all add: tea2_def tea_trades_def weighted_def)

text \<open>
  The final \<open>quantize\<close> of a value whose hundredfold is close to the quotient \<open>N / D\<close>.
\<close>

lemma quantize2_of_close:
  fixes N D :: int and y :: rat
  assumes D: "0 < D" and N: "0 \<le> N" "N < 10 ^ 27" and y: "0 \<le> y" "y < 10 ^ 26"
    and close: "\<bar>y * 100 - of_int N / of_int D\<bar> < 1 / (2 * of_int D)"
    and tie: "\<And>n. 2 * N = (2 * n + 1) * D \<Longrightarrow> y * 100 = of_int N / of_int D"
  shows "quantize2 y = Inr (of_int (round_half_up (of_int N / of_int D)) / 100)"
proof -
  define x :: rat where "x = of_int N / of_int D"
  have x0: "0 \<le> x" using N D by (simp add: x_def)
  have "x \<le> of_int N / 1"
    unfolding x_def using N D by (intro frac_le) simp_all
  moreover have "(of_int N :: rat) < of_int (10 ^ 27)" using N(2) by (simp only: of_int_less_iff)
  ultimately have x27: "x < 10 ^ 27" by simp
  have st: "round_half_up (y * 100) = round_half_up x"
    unfolding x_def using D N(1) _ close tie by (rule round_half_up_stable) (use y in simp)
  define v where "v = round_half_up x"
  have v: "0 \<le> v" "(of_int v :: rat) \<le> x + 1 / 2"
    unfolding v_def using x0 by (simp_all add: round_half_up_bounds)
  have "(of_int v :: rat) < of_int (10 ^ 28)"
    using v(2) x27 by simp
  then have "v < 10 ^ 28" by (simp only: of_int_less_iff)
  then have v28: "\<bar>v\<bar> < 10 ^ 28" using v(1) by simp
  show ?thesis
    using y v28 by (simp add: quantize2_def Let_def st v_def[symmetric] x_def[symmetric])
qed

lemma fix_ctx_zero: "fix_ctx 0 = Inr 0"
  by (simp add: fix_ctx_def)

lemma quantize2_zero: "quantize2 0 = Inr 0"
  by code_simp

lemma round2_half_up_zero: "round2_half_up 0 = 0"
  by code_simp

lemma tie_numerator:
  fixes N D n :: int
  assumes "0 < D" "0 < N" "2 * N = (2 * n + 1) * D"
  shows "0 < 2 * n + 1" and "2 * n + 1 \<le> 2 * N"
proof -
  show pos: "0 < 2 * n + 1"
  proof (rule ccontr)
    assume "\<not> 0 < 2 * n + 1"
    then have "(2 * n + 1) * D \<le> 0" using assms(1) by (simp add: mult_le_0_iff)
    with assms(2,3) show False by simp
  qed
  have "(2 * n + 1) * 1 \<le> (2 * n + 1) * D"
    using pos assms(1) by (intro mult_left_mono) simp_all
  then show "2 * n + 1 \<le> 2 * N" by (simp only: assms(3) mult_1_right)
qed

lemma scaled_error_small:
  fixes x :: rat and N D :: int
  assumes "x * 100 = of_int N / of_int D" "N < 10 ^ 27" "0 < D"
  shows "x * 100 / (2 * 10 ^ 27) < 1 / (2 * of_int D)"
proof -
  have Nr: "(of_int N :: rat) < 10 ^ 27" using assms(2) by (simp flip: of_int_less_iff)
  have Dr: "0 < (of_int D :: rat)" using assms(3) by simp
  have "x * 100 / (2 * 10 ^ 27) = (of_int N / 10 ^ 27) * (1 / (2 * of_int D))"
    by (simp add: assms(1))
  also have "\<dots> < 1 * (1 / (2 * of_int D))"
    using Nr Dr by (intro mult_strict_right_mono) simp_all
  finally show ?thesis by simp
qed

lemma tie_value:
  fixes x :: rat and N D n :: int
  assumes "x * 100 = of_int N / of_int D" "0 < D" "2 * N = (2 * n + 1) * D"
  shows "x = of_int ((2 * n + 1) * 5) * 10 powi (- 3)"
proof -
  have Dr: "0 < (of_int D :: rat)" using assms(2) by simp
  have "(of_int (2 * N) :: rat) = of_int ((2 * n + 1) * D)" by (simp only: assms(3))
  moreover have "x * 200 = of_int (2 * N) / of_int D"
    using assms(1) by simp
  ultimately have "x * 200 = of_int ((2 * n + 1) * D) / of_int D" by simp
  also have "\<dots> = of_int (2 * n + 1)" using Dr by simp
  finally have "x = of_int (2 * n + 1) / 200" by simp
  then show ?thesis by (simp add: power_int_minus_divide)
qed

lemma common_yield:
  assumes k: "kind s = Common" and p: "0 < price" "price < 10 ^ 28"
    and d: "0 \<le> last_dividend_pennies s" "last_dividend_pennies s < 10 ^ 23"
  shows "dividend_yield s price
       = Inr (round2_half_up (of_int (last_dividend_pennies s) * 100 / of_int price))"
proof (cases "last_dividend_pennies s = 0")
  case True
  have m: "dec_mul 0 100 = Inr 0" by (simp add: dec_mul_def fix_ctx_zero)
  have dv: "dec_div 0 (of_int price) = Inr 0" using p(1) by (simp add: dec_div_def fix_ctx_zero)
  have "dividend_yield s price = Inr 0"
    using k p(1) by (simp add: dividend_yield_def True m dv quantize2_zero)
  then show ?thesis by (simp add: True round2_half_up_zero)
next
  case False
  define ld where "ld = last_dividend_pennies s"
  have ld: "0 < ld" "ld < 10 ^ 23" using False d by (simp_all add: ld_def)
  define x :: rat where "x = of_int ld * 100 / of_int price"
  have pr: "(1::rat) \<le> of_int price" "(of_int price :: rat) < 10 ^ 28" "0 < (of_int price :: rat)"
    using p by (simp_all flip: of_int_less_iff)
  have lr: "(1::rat) \<le> of_int ld" "(of_int ld :: rat) < 10 ^ 23"
    using ld by (simp_all flip: of_int_less_iff)
  have "fix_ctx (of_int (ld * 100) * 10 powi 0) = Inr (of_int (ld * 100) * 10 powi 0)"
    using ld etiny_le emax_ge by (intro fix_ctx_exact) simp_all
  then have a: "fix_ctx (of_int ld * 100) = Inr (of_int ld * 100)" by simp
  have xpos: "0 < x" using lr pr by (simp add: x_def)
  have "(1::rat) / 10 ^ 28 \<le> of_int ld * 100 / of_int price"
    using lr pr by (intro frac_le) simp_all
  then have xlo: "10 powi (- 28) \<le> x" by (simp add: x_def power_int_minus_divide)
  have "of_int ld * 100 / of_int price \<le> (of_int ld * 100 :: rat) / 1"
    using lr pr by (intro frac_le) simp_all
  then have xhi: "x < 10 ^ 25" using lr(2) by (simp add: x_def)
  have rg: "etiny + 27 \<le> adjusted 10 x" "adjusted 10 x < emax"
    using adjusted_in_range[of x "- 28" 25] xlo xhi xpos by simp_all
  from fix_ctx_normal_pos[OF xpos rg] obtain y where
    y: "fix_ctx x = Inr y" and err: "\<bar>y - x\<bar> \<le> x / (2 * 10 ^ 27)"
    and exact: "\<forall>c k. x = of_int c * 10 powi k \<and> \<bar>c\<bar> < 10 ^ 28 \<longrightarrow> y = x"
    by blast
  have "x / (2 * 10 ^ 27) \<le> x" using xpos by (simp add: pos_divide_le_eq)
  with err have "\<bar>y - x\<bar> \<le> x" by (rule order_trans)
  then have yb: "0 \<le> y" "y \<le> 2 * x" by linarith+
  have q: "quantize2 y = Inr (of_int (round_half_up (of_int (ld * 10000) / of_int price)) / 100)"
  proof (rule quantize2_of_close)
    show "0 < price" using p(1) .
    show "0 \<le> ld * 10000" "ld * 10000 < 10 ^ 27" using ld by simp_all
    show "0 \<le> y" using yb(1) .
    show "y < 10 ^ 26" using yb(2) xhi by simp
    have x100: "of_int (ld * 10000) / of_int price = x * 100" by (simp add: x_def)
    have "x * 100 / (2 * 10 ^ 27) < 1 / (2 * of_int price)"
      using x100[symmetric] _ p(1) by (rule scaled_error_small) (use ld in simp)
    moreover have "y * 100 - x * 100 = (y - x) * 100" by (simp add: algebra_simps)
    then have "\<bar>y * 100 - x * 100\<bar> = \<bar>y - x\<bar> * \<bar>100\<bar>"
      by (simp only: abs_mult)
    then have "\<bar>y * 100 - x * 100\<bar> = \<bar>y - x\<bar> * 100"
      by simp
    ultimately show "\<bar>y * 100 - of_int (ld * 10000) / of_int price\<bar> < 1 / (2 * of_int price)"
      using err unfolding x100 by simp
  next
    fix n assume t: "2 * (ld * 10000) = (2 * n + 1) * price"
    from tie_numerator[OF p(1) _ t] ld
    have n: "0 < 2 * n + 1" "2 * n + 1 \<le> 2 * (ld * 10000)" by simp_all
    then have small: "\<bar>(2 * n + 1) * 5\<bar> < 10 ^ 28" using ld(2) by simp
    have "x * 100 = of_int (ld * 10000) / of_int price" by (simp add: x_def)
    then have "x = of_int ((2 * n + 1) * 5) * 10 powi (- 3)"
      using p(1) t by (rule tie_value)
    with small exact have "y = x" by blast
    then show "y * 100 = of_int (ld * 10000) / of_int price" by (simp add: x_def)
  qed
  have m: "dec_mul (of_int ld) 100 = Inr (of_int ld * 100)"
    using a by (simp add: dec_mul_def)
  have dv: "dec_div (of_int ld * 100) (of_int price) = Inr y"
    using y p(1) by (simp add: dec_div_def x_def)
  have "dividend_yield s price
      = Inr (of_int (round_half_up (of_int (ld * 10000) / of_int price)) / 100)"
    using k p(1) by (simp add: dividend_yield_def ld_def[symmetric] m dv q)
  moreover have "x * 100 = of_int (ld * 10000) / of_int price" by (simp add: x_def)
  then have "round2_half_up x = of_int (round_half_up (of_int (ld * 10000) / of_int price)) / 100"
    unfolding round2_half_up_def by (simp only:)
  ultimately show ?thesis by (simp add: x_def ld_def)
qed

lemma powi10_shift_up2: "of_int c * (10::rat) powi (k + 2) = of_int c * 10 powi k * 100"
proof -
  have "(10::rat) powi (k + 2) = 10 powi k * 10 powi 2" by (rule powi10_add)
  then show ?thesis by simp
qed

lemma half_ulp_le: "0 < x \<Longrightarrow> \<bar>r - x\<bar> \<le> x / (2 * 10 ^ 27) \<Longrightarrow> 0 \<le> r \<and> r \<le> 2 * (x::rat)"
proof -
  assume x: "0 < x" and e: "\<bar>r - x\<bar> \<le> x / (2 * 10 ^ 27)"
  have "x / (2 * 10 ^ 27) \<le> x" using x by (simp add: pos_divide_le_eq)
  with e have "\<bar>r - x\<bar> \<le> x" by (rule order_trans)
  then show ?thesis by linarith
qed

lemma adjusted_in_range_pos:
  assumes "0 < x" "10 powi l \<le> x" "x < 10 powi h" "- 900 \<le> l" "h \<le> 900"
  shows "etiny + 27 \<le> adjusted 10 x" and "adjusted 10 x < emax"
  using adjusted_in_range[of x l h] assms by simp_all

lemma preferred_yield:
  assumes k: "kind s = Preferred pct" and pct: "0 < pct" "quotient_of pct = (m, dn)"
    and p: "0 < price" and par: "0 < par_value_pennies s"
    and b1: "30000 * m * par_value_pennies s < 10 ^ 27"
    and b2: "dn * price < 10 ^ 400"
  shows "dividend_yield s price
       = Inr (round2_half_up (pct * of_int (par_value_pennies s) * 100 / of_int price))"
proof -
  define pv where "pv = par_value_pennies s"
  have dn: "0 < dn" using quotient_of_denom_pos[OF pct(2)] .
  have pe: "pct = of_int m / of_int dn" using quotient_of_div[OF pct(2)] .
  have m: "0 < m"
  proof -
    have "0 < (of_int m :: rat) / of_int dn" using pct(1) by (simp only: pe)
    then show ?thesis using dn by (simp add: zero_less_divide_iff)
  qed
  have pv: "0 < pv" using par by (simp add: pv_def)
  define N where "N = 10000 * m * pv"
  define D where "D = dn * price"
  have D: "0 < D" using dn p by (simp add: D_def)
  have N: "0 < N" using m pv by (simp add: N_def)
  have N3: "3 * N < 10 ^ 27" using b1 by (simp add: N_def pv_def)
  have mp: "m * pv < 10 ^ 23" using N3 by (simp add: N_def)
  define Bi :: int where "Bi = 10 ^ 400"
  define B :: rat where "B = of_int Bi"
  have Bi: "0 < Bi" by (simp add: Bi_def)
  have B: "0 < B" using Bi by (simp add: B_def)
  have pB: "(10::rat) powi (- 400) = 1 / B"
    by (simp add: B_def Bi_def power_int_minus_divide)
  have pB2: "(10::rat) powi (- 800) = 1 / B / B"
    by (simp add: B_def Bi_def power_int_minus_divide)
  have b2': "dn * price < Bi" using b2 by (simp only: Bi_def)
  have "dn * 1 \<le> dn * price" using dn p by (intro mult_left_mono) simp_all
  with b2' have dn400: "dn < Bi" by simp
  have "1 * price \<le> dn * price" using dn p by (intro mult_right_mono) simp_all
  with b2' have price400: "price < Bi" by simp
  have dnr: "(1::rat) \<le> of_int dn" "(of_int dn :: rat) < B" "0 < (of_int dn :: rat)"
    using dn dn400 by (simp_all add: B_def)
  have prr: "(1::rat) \<le> of_int price" "(of_int price :: rat) < B" "0 < (of_int price :: rat)"
    using p price400 by (simp_all add: B_def)
  have mpr: "(1::rat) \<le> of_int (m * pv)" "(of_int (m * pv) :: rat) < 10 ^ 23"
  proof -
    have "0 < m * pv" using m pv by (rule mult_pos_pos)
    then have "1 \<le> m * pv" by simp
    then show "(1::rat) \<le> of_int (m * pv)" by (simp only: of_int_1_le_iff)
    have "(of_int (m * pv) :: rat) < of_int (10 ^ 23)" using mp by (simp only: of_int_less_iff)
    then show "(of_int (m * pv) :: rat) < 10 ^ 23" by simp
  qed
  define R :: rat where "R = pct * of_int pv"
  have Re: "R = of_int (m * pv) / of_int dn" by (simp add: R_def pe)
  have Rpos: "0 < R" using mpr(1) dnr(3) by (simp add: Re)
  have "1 / B \<le> of_int (m * pv) / of_int dn"
    using mpr(1) dnr by (intro frac_le) simp_all
  then have Rlo: "10 powi (- 400) \<le> R" by (simp only: Re pB)
  have "of_int (m * pv) / of_int dn \<le> (of_int (m * pv) :: rat) / 1"
    using mpr(1) dnr by (intro frac_le) simp_all
  then have Rhi: "R < 10 ^ 23" using mpr(2) by (simp add: Re)
  then have Rhi': "R < 10 powi 23" by simp
  have rgR: "etiny + 27 \<le> adjusted 10 R" "adjusted 10 R < emax"
    by (rule adjusted_in_range_pos[OF Rpos Rlo Rhi'], simp, simp)+
  from fix_ctx_normal_pos[OF Rpos rgR] obtain r1 where
    r1: "fix_ctx R = Inr r1" and err1: "\<bar>r1 - R\<bar> \<le> R / (2 * 10 ^ 27)"
    and exact1: "\<forall>c k. R = of_int c * 10 powi k \<and> \<bar>c\<bar> < 10 ^ 28 \<longrightarrow> r1 = R"
    by blast
  have r1lo: "10 powi (- 400) \<le> r1"
    using Rpos Rlo _ r1 by (rule fix_ctx_ge) (use etiny_le in simp)
  have r1hi: "r1 \<le> 2 * R" using half_ulp_le[OF Rpos err1] by simp
  have r1pos: "0 < r1"
    using r1lo powi10_pos[of "- 400"] by linarith
  from fix_ctx_representable[OF Rpos rgR(1) r1] obtain c k where
    ck: "r1 = of_int c * 10 powi k" "0 < c" "c < 10 ^ 28" by blast
  have r100: "r1 * 100 = of_int c * 10 powi (k + 2)"
    by (simp only: ck(1) powi10_shift_up2)
  have r100lo: "10 powi (- 400) \<le> r1 * 100" using r1lo r1pos by linarith
  have "r1 * 100 < 10 ^ 26" using r1hi Rhi by simp
  then have r100hi: "r1 * 100 < 10 powi 26" by simp
  have r100pos: "0 < r1 * 100" using r1pos by simp
  have rg2: "etiny + 27 \<le> adjusted 10 (r1 * 100)" "adjusted 10 (r1 * 100) < emax"
    by (rule adjusted_in_range_pos[OF r100pos r100lo r100hi], simp, simp)+
  have a2: "fix_ctx (r1 * 100) = Inr (r1 * 100)"
    unfolding r100 using ck(2,3) rg2 by (intro fix_ctx_exact_range) (simp_all add: r100)
  define x :: rat where "x = R * 100 / of_int price"
  define y0 :: rat where "y0 = r1 * 100 / of_int price"
  have xpos: "0 < x" using Rpos prr(3) by (simp add: x_def)
  have y0pos: "0 < y0" using r1pos prr(3) by (simp add: y0_def)
  have xN: "x * 100 = of_int N / of_int D"
    using dnr(3) prr(3) by (simp add: x_def Re N_def D_def)
  have r1lo': "1 / B \<le> r1 * 100"
    using r100lo by (simp only: pB)
  have "1 / B / B \<le> r1 * 100 / of_int price"
    using r1lo' prr B r1pos by (intro frac_le) simp_all
  then have y0lo: "10 powi (- 800) \<le> y0" by (simp only: y0_def pB2)
  have "r1 * 100 / of_int price \<le> r1 * 100 / 1"
    using r1pos prr by (intro frac_le) simp_all
  then have "y0 < 10 ^ 26" using r1hi Rhi by (simp add: y0_def)
  then have y0hi: "y0 < 10 powi 26" by simp
  have rg3: "etiny + 27 \<le> adjusted 10 y0" "adjusted 10 y0 < emax"
    by (rule adjusted_in_range_pos[OF y0pos y0lo y0hi], simp, simp)+
  from fix_ctx_normal_pos[OF y0pos rg3] obtain y where
    y: "fix_ctx y0 = Inr y" and err2: "\<bar>y - y0\<bar> \<le> y0 / (2 * 10 ^ 27)"
    and exact2: "\<forall>c k. y0 = of_int c * 10 powi k \<and> \<bar>c\<bar> < 10 ^ 28 \<longrightarrow> y = y0"
    by blast
  have d0: "\<bar>y0 - x\<bar> \<le> x / (2 * 10 ^ 27)"
  proof -
    have "y0 - x = (r1 - R) * (100 / of_int price)"
      by (simp add: y0_def x_def left_diff_distrib diff_divide_distrib)
    then have "\<bar>y0 - x\<bar> = \<bar>r1 - R\<bar> * \<bar>100 / of_int price\<bar>" by (simp only: abs_mult)
    also have "\<dots> = \<bar>r1 - R\<bar> * (100 / of_int price)" using prr(3) by simp
    also have "\<dots> \<le> R / (2 * 10 ^ 27) * (100 / of_int price)"
      using err1 prr(3) by (intro mult_right_mono) simp_all
    also have "\<dots> = x / (2 * 10 ^ 27)" by (simp add: x_def)
    finally show ?thesis .
  qed
  have y0x: "y0 \<le> 2 * x" using half_ulp_le[OF xpos d0] by simp
  have "y0 / (2 * 10 ^ 27) \<le> 2 * x / (2 * 10 ^ 27)"
    using y0x by (intro divide_right_mono) simp_all
  with err2 have d1: "\<bar>y - y0\<bar> \<le> x / 10 ^ 27" by simp
  have dy: "\<bar>y - x\<bar> \<le> 3 * x / (2 * 10 ^ 27)"
  proof -
    have "\<bar>y - x\<bar> \<le> \<bar>y - y0\<bar> + \<bar>y0 - x\<bar>" by simp
    also have "\<dots> \<le> x / 10 ^ 27 + x / (2 * 10 ^ 27)" using d0 d1 by (rule add_mono[rotated])
    also have "\<dots> = 3 * x / (2 * 10 ^ 27)" by simp
    finally show ?thesis .
  qed
  have "3 * x / (2 * 10 ^ 27) \<le> x" using xpos by (simp add: pos_divide_le_eq)
  with dy have "\<bar>y - x\<bar> \<le> x" by (rule order_trans)
  then have yb: "0 \<le> y" "y \<le> 2 * x" by linarith+
  have xhi: "x < 10 ^ 25"
  proof -
    have "R * 100 / of_int price \<le> R * 100 / 1"
      using Rpos prr by (intro frac_le) simp_all
    then show ?thesis using Rhi by (simp add: x_def)
  qed
  have q: "quantize2 y = Inr (of_int (round_half_up (of_int N / of_int D)) / 100)"
  proof (rule quantize2_of_close)
    show "0 < D" using D .
    show "0 \<le> N" "N < 10 ^ 27" using N N3 by simp_all
    show "0 \<le> y" using yb(1) .
    show "y < 10 ^ 26" using yb(2) xhi by simp
    have "(3 * x) * 100 = of_int (3 * N) / of_int D" using xN by simp
    then have "(3 * x) * 100 / (2 * 10 ^ 27) < 1 / (2 * of_int D)"
      using N3 D by (rule scaled_error_small)
    moreover have "y * 100 - x * 100 = (y - x) * 100" by (simp add: algebra_simps)
    then have "\<bar>y * 100 - x * 100\<bar> = \<bar>y - x\<bar> * \<bar>100\<bar>"
      by (simp only: abs_mult)
    then have "\<bar>y * 100 - x * 100\<bar> = \<bar>y - x\<bar> * 100"
      by simp
    ultimately show "\<bar>y * 100 - of_int N / of_int D\<bar> < 1 / (2 * of_int D)"
      using dy unfolding xN[symmetric] by simp
  next
    fix n assume t: "2 * N = (2 * n + 1) * D"
    note tn = tie_numerator[OF D N t]
    have xv: "x = of_int ((2 * n + 1) * 5) * 10 powi (- 3)"
      using xN D t by (rule tie_value)
    have small: "\<bar>(2 * n + 1) * 5\<bar> < 10 ^ 28"
      using tn N3 by simp
    have Rv: "R = of_int ((2 * n + 1) * price * 5) * 10 powi (- 5)"
    proof -
      have p3: "(10::rat) powi (- 3) = 1 / 1000" and p5: "(10::rat) powi (- 5) = 1 / 100000"
        by (simp_all add: power_int_minus_divide)
      have "R * 100 = x * of_int price" using prr(3) by (simp add: x_def)
      then have "R * 100 = of_int ((2 * n + 1) * 5) * (1 / 1000) * of_int price"
        by (simp only: xv p3)
      then have "R = of_int ((2 * n + 1) * 5) * (1 / 1000) * of_int price / 100"
        by simp
      also have "\<dots> = of_int ((2 * n + 1) * price * 5) * (1 / 100000)"
        by (simp add: field_simps)
      finally show ?thesis by (simp only: p5)
    qed
    have "(2 * n + 1) * price * 1 \<le> (2 * n + 1) * price * dn"
      using tn(1) p dn by (intro mult_left_mono) simp_all
    also have "\<dots> = (2 * n + 1) * D" by (simp add: D_def)
    also have "\<dots> = 2 * N" by (simp only: t)
    finally have "(2 * n + 1) * price \<le> 2 * N" by simp
    moreover have "0 < (2 * n + 1) * price" using tn(1) p by simp
    moreover define z where "z = (2 * n + 1) * price"
    ultimately have "z \<le> 2 * N" "0 < z" by simp_all
    then have "\<bar>z * 5\<bar> < 10 ^ 28" using N3 by simp
    then have small1: "\<bar>(2 * n + 1) * price * 5\<bar> < 10 ^ 28"
      by (simp only: z_def)
    from exact1 Rv small1 have "r1 = R" by blast
    then have "y0 = x" by (simp add: y0_def x_def)
    with exact2 xv small have "y = y0" by blast
    then show "y * 100 = of_int N / of_int D"
      using \<open>y0 = x\<close> xN by simp
  qed
  have m1: "dec_mul pct (of_int pv) = Inr r1"
    using r1 by (simp add: dec_mul_def R_def)
  have m2: "dec_mul r1 100 = Inr (r1 * 100)"
    using a2 by (simp add: dec_mul_def)
  have dv: "dec_div (r1 * 100) (of_int price) = Inr y"
    using y p by (simp add: dec_div_def y0_def)
  have "dividend_yield s price = Inr (of_int (round_half_up (of_int N / of_int D)) / 100)"
    using k p by (simp add: dividend_yield_def pv_def[symmetric] m1 m2 dv q)
  moreover have "round2_half_up x = of_int (round_half_up (of_int N / of_int D)) / 100"
    unfolding round2_half_up_def by (simp only: xN)
  ultimately show ?thesis by (simp add: x_def R_def pv_def)
qed

lemma float_0_02_quotient:
  "quotient_of (5764607523034235 / 2 ^ 58) = (5764607523034235, 288230376151711744)"
  by code_simp

lemma gin0_yield_value:
  "round2_half_up (5764607523034235 / 2 ^ 58 * of_int 10000 * 100 / of_int 10000) = 2"
  by code_simp

lemma pop0_yield_value: "round2_half_up (of_int 8 * 100 / of_int 10000) = 8 / 100"
  by code_simp

lemma collect_vwsps_no_trades:
  assumes "\<forall>j<length ss. trades (ss ! j) = [] \<and> datetime_ok (clock (i + j) - 300000000)"
  shows "\<forall>j<length ss. \<exists>r. volume_weighted_stock_price (ss ! j) (clock (i + j)) 5 = Inr r
             \<and> (r = None \<or> (\<exists>v. r = Some v \<and> v \<le> 0))"
proof (intro allI impI)
  fix j assume j: "j < length ss"
  with assms have t: "trades (ss ! j) = []" and d: "datetime_ok (clock (i + j) - 300000000)"
    by simp_all
  have "cutoff_time (clock (i + j)) 5 = Inr (clock (i + j) - 300000000)"
    using d by (simp add: cutoff_time_def timedelta_minutes_def datetime_sub_def Let_def
        us_per_day_def)
  then have "volume_weighted_stock_price (ss ! j) (clock (i + j)) 5 = Inr None"
    by (simp add: volume_weighted_stock_price_def recent_trades_def vwap_of_def t)
  then show "\<exists>r. volume_weighted_stock_price (ss ! j) (clock (i + j)) 5 = Inr r
      \<and> (r = None \<or> (\<exists>v. r = Some v \<and> v \<le> 0))"
    by simp
qed

lemma costly_recorded: "record_trade tea0 demo_t0 1 BUY (10 ^ 28) = (Inr (), costly)"
  by (simp add: record_trade_def Let_def int_true_div_overflows_def costly_def tea0_def)

lemma costly_vwsp:
  "volume_weighted_stock_price costly (demo_t0 + 2) 5 = Inl InvalidOperation"
  by code_simp




























section \<open>The registry\<close>

lemma map_of_dict_set: "map_of (dict_set ex k v) = (map_of ex)(k \<mapsto> v)"
  by (induction ex k v rule: dict_set.induct) (auto simp: fun_eq_iff)

text \<open>
  C7.  Creating a stock, common or preferred, under a symbol that is already registered
  fails with the duplicate-symbol \<open>ValueError\<close>; the registry is the same afterwards, and
  \<open>get_stock\<close> still returns the stock registered first, with every field as it was.
\<close>

theorem duplicate_symbol_keeps_original:
  assumes "map_of ex symb = Some st"
  shows "create_common_stock ex symb d par = (Inl ValueError, ex)
       \<and> create_preferred_stock ex symb d pct par = (Inl ValueError, ex)
       \<and> get_stock (snd (create_common_stock ex symb d par)) symb = Inr st
       \<and> get_stock (snd (create_preferred_stock ex symb d pct par)) symb = Inr st"
  using assms by (simp add: create_common_stock_def create_preferred_stock_def get_stock_def)

theorem duplicate_symbol_keeps_original_witness:
  "create_common_stock Exchange_init ''TEA'' 0 10000
     = (Inr \<lparr>symbol = ''TEA'', par_value_pennies = 10000, last_dividend_pennies = 0,
              kind = Common, trades = []\<rparr>,
        [(''TEA'', \<lparr>symbol = ''TEA'', par_value_pennies = 10000, last_dividend_pennies = 0,
                    kind = Common, trades = []\<rparr>)])
   \<and> create_common_stock
         [(''TEA'', \<lparr>symbol = ''TEA'', par_value_pennies = 10000, last_dividend_pennies = 0,
                     kind = Common, trades = []\<rparr>)] ''TEA'' 8 100
       = (Inl ValueError,
          [(''TEA'', \<lparr>symbol = ''TEA'', par_value_pennies = 10000, last_dividend_pennies = 0,
                      kind = Common, trades = []\<rparr>)])
   \<and> get_stock (snd (create_preferred_stock
         [(''TEA'', \<lparr>symbol = ''TEA'', par_value_pennies = 10000, last_dividend_pennies = 0,
                     kind = Common, trades = []\<rparr>)] ''TEA'' 8 (Finite (1 / 4)) 100)) ''TEA''
       = Inr \<lparr>symbol = ''TEA'', par_value_pennies = 10000, last_dividend_pennies = 0,
               kind = Common, trades = []\<rparr>"
proof -
  let ?tea = "\<lparr>symbol = ''TEA'', par_value_pennies = 10000, last_dividend_pennies = 0,
               kind = Common, trades = []\<rparr>"
  have c: "create_common_stock Exchange_init ''TEA'' 0 10000 = (Inr ?tea, [(''TEA'', ?tea)])"
    by (simp add: create_common_stock_def Exchange_init_def CommonStock_init_def Stock_init_def)
  have m: "map_of [(''TEA'', ?tea)] ''TEA'' = Some ?tea"
    by simp
  from duplicate_symbol_keeps_original [OF m, of 8 100 "Finite (1 / 4)"] c
  show ?thesis by blast
qed

section \<open>A defined price is positive\<close>

text \<open>
  C10.  On a stock produced by the constructors and \<open>record_trade\<close>, whenever
  \<open>volume_weighted_stock_price\<close> returns a value, the value is at least 0.01: every
  recorded trade has a quantity and a price of at least 1, so the average is at least one
  penny and neither rounding brings it below.  The float the index makes of it is
  strictly positive, so the index's filter keeps it.
\<close>

theorem defined_vwsp_is_positive:
  assumes "reachable s" and "volume_weighted_stock_price s now minutes_back = Inr (Some v)"
  shows "1 / 100 \<le> v \<and> 0 < float_of_vwsp (Some v)"
proof -
  from assms(2) obtain c where c: "vwap_of (recent_trades s c) = Inr (Some v)"
    by (auto simp: volume_weighted_stock_price_def split: sum.splits)
  have "\<forall>t\<in>set (recent_trades s c). admitted t"
    using reachable_admitted[OF assms(1)] by (simp add: recent_trades_def)
  then have v: "1 / 100 \<le> v"
    using c by (rule vwap_of_at_least_one_penny)
  then have "0 < v" by simp
  then have "0 < float_of_vwsp (Some v)"
    using round_double_pos[of v] by (simp add: float_of_vwsp_def float_of_dec_def)
  with v show ?thesis by simp
qed


theorem defined_vwsp_is_positive_witness:
  "reachable tea2
   \<and> volume_weighted_stock_price tea2 (demo_t0 + 2) 5 = Inr (Some (10003 / 100))
   \<and> (1::rat) / 100 \<le> 10003 / 100
   \<and> 0 < float_of_vwsp (Some (10003 / 100))"
  using defined_vwsp_is_positive[OF tea2_reachable tea2_vwsp] tea2_reachable tea2_vwsp
  by blast

section \<open>Construction\<close>

text \<open>
  C3.  The constructor of \<open>PreferredStock\<close> does not look at the last dividend: for GIN
  with a last dividend of \<open>-8\<close> it returns a stock whose last dividend is negative, where
  \<open>CommonStock\<close> raises.
\<close>

theorem preferred_accepts_negative_dividend:
  "PreferredStock_init ''GIN'' (- 8) (Finite float_0_02) 10000
     = Inr \<lparr>symbol = ''GIN'', par_value_pennies = 10000, last_dividend_pennies = - 8,
            kind = Preferred float_0_02, trades = []\<rparr>
   \<and> CommonStock_init ''GIN'' (- 8) 10000 = Inl ValueError"
  by (simp add: PreferredStock_init_def CommonStock_init_def Stock_init_def float_0_02_def)

section \<open>Recording a trade\<close>

text \<open>
  C6.  \<open>record_trade\<close> with quantity 1 and a price of \<open>10 ^ 311\<close> pennies passes the
  validation and appends the trade; the log line then divides the price by 100 as a
  float, which raises \<open>OverflowError\<close>: the call fails and the ledger has grown.
\<close>

theorem record_trade_fails_after_append:
  "record_trade tea0 demo_t0 1 BUY (10 ^ 311)
     = (Inl OverflowError,
        tea0\<lparr>trades := [\<lparr>timestamp = demo_t0, quantity = 1, indicator = BUY,
                            price_pennies = 10 ^ 311\<rparr>]\<rparr>)"
  by (simp add: record_trade_def Let_def int_true_div_overflows_def tea0_def)

section \<open>The price-earnings ratio\<close>

text \<open>
  C4, as the code has it.  \<open>pe_ratio\<close> returns \<open>None\<close> exactly when the price is not
  positive or the last dividend is zero.  Otherwise, for a price and a dividend below
  \<open>10 ^ 28\<close> in magnitude, it returns the quotient rounded to the 28 significant digits of
  the decimal context: within a relative error of \<open>5 / 10 ^ 28\<close> of \<open>price / last_dividend\<close>,
  and equal to it whenever the quotient has at most 28 significant digits.  It is not
  rounded to 2 digits.
\<close>

theorem pe_ratio_is_context_quotient:
  "(pe_ratio s price = Inr None \<longleftrightarrow> price \<le> 0 \<or> last_dividend_pennies s = 0)
   \<and> (0 < price \<and> price < 10 ^ 28 \<and> last_dividend_pennies s \<noteq> 0
        \<and> \<bar>last_dividend_pennies s\<bar> < 10 ^ 28 \<longrightarrow>
      (\<exists>r. pe_ratio s price = Inr (Some r)
         \<and> \<bar>r - of_int price / of_int (last_dividend_pennies s)\<bar>
             \<le> \<bar>of_int price / of_int (last_dividend_pennies s)\<bar> / (2 * 10 ^ 27)
         \<and> (\<forall>c k. (of_int price :: rat) / of_int (last_dividend_pennies s)
                    = of_int c * 10 powi k
                  \<and> \<bar>c\<bar> < 10 ^ 28
               \<longrightarrow> r = of_int price / of_int (last_dividend_pennies s))))"
proof -
  define d where "d = last_dividend_pennies s"
  have a: "pe_ratio s price = Inr None \<longleftrightarrow> price \<le> 0 \<or> d = 0"
    by (auto simp: pe_ratio_def d_def split: sum.splits)
  have b: "\<exists>r. pe_ratio s price = Inr (Some r)
         \<and> \<bar>r - of_int price / of_int d\<bar> \<le> \<bar>of_int price / of_int d\<bar> / (2 * 10 ^ 27)
         \<and> (\<forall>c k. (of_int price :: rat) / of_int d = of_int c * 10 powi k \<and> \<bar>c\<bar> < 10 ^ 28
               \<longrightarrow> r = of_int price / of_int d)"
    if h: "0 < price \<and> price < 10 ^ 28 \<and> d \<noteq> 0 \<and> \<bar>d\<bar> < 10 ^ 28"
  proof -
    define x :: rat where "x = of_int price / of_int d"
    have xn: "x \<noteq> 0" using h by (simp add: x_def)
    have "10 powi (- 28) \<le> \<bar>x\<bar>"
      unfolding x_def using h by (intro quotient_range(1)) simp_all
    moreover have "\<bar>x\<bar> < 10 powi 28"
      unfolding x_def using h by (intro quotient_range(2)) simp_all
    ultimately have "etiny + 27 \<le> adjusted 10 x" "adjusted 10 x < emax"
      using xn by (simp_all add: adjusted_in_range[of x "- 28" 28])
    from fix_ctx_normal[OF xn this] obtain r where
      r: "fix_ctx x = Inr r" "\<bar>r - x\<bar> \<le> \<bar>x\<bar> / (2 * 10 ^ 27)"
      "\<forall>c k. x = of_int c * 10 powi k \<and> \<bar>c\<bar> < 10 ^ 28 \<longrightarrow> r = x"
      by blast
    have "pe_ratio s price = Inr (Some r)"
      using h r(1) by (simp add: pe_ratio_def dec_div_def d_def[symmetric] x_def[symmetric])
    with r(2,3) show ?thesis unfolding x_def by blast
  qed
  show ?thesis
    using a b unfolding d_def by blast
qed

theorem pe_ratio_is_context_quotient_witness:
  "pe_ratio pop0 100 = Inr (Some (25 / 2)) \<and> pe_ratio pop0 0 = Inr None"
proof -
  have ld: "last_dividend_pennies pop0 = 8" by (simp add: pop0_def)
  note t = pe_ratio_is_context_quotient[of pop0 100, unfolded ld]
  have "0 < (100::int) \<and> (100::int) < 10 ^ 28 \<and> (8::int) \<noteq> 0 \<and> \<bar>8::int\<bar> < 10 ^ 28"
    by simp
  with t obtain r where
    r: "pe_ratio pop0 100 = Inr (Some r)"
    "\<forall>c k. (of_int 100 :: rat) / of_int 8 = of_int c * 10 powi k \<and> \<bar>c\<bar> < 10 ^ 28
        \<longrightarrow> r = of_int 100 / of_int 8"
    by blast
  have "(of_int 100 :: rat) / of_int 8 = of_int 125 * 10 powi (- 1) \<and> \<bar>125 :: int\<bar> < 10 ^ 28"
    by (simp add: power_int_minus_divide)
  with r(2) have "r = of_int 100 / of_int 8" by blast
  then have a: "pe_ratio pop0 100 = Inr (Some (25 / 2))" using r(1) by simp
  have b: "pe_ratio pop0 0 = Inr None"
    using pe_ratio_is_context_quotient[of pop0 0] by simp
  show ?thesis using a b by blast
qed

text \<open>
  The quotient is not exact in general: for ALE, whose last dividend is 23, at a price of
  100 the result is the 28-digit decimal \<open>4.347826086956521739130434783\<close>, not \<open>100 / 23\<close>.
\<close>

theorem pe_ratio_not_exact:
  "pe_ratio ale0 100 = Inr (Some (4347826086956521739130434783 / 10 ^ 27))
   \<and> pe_ratio ale0 100 \<noteq> Inr (Some (of_int 100 / of_int (last_dividend_pennies ale0)))"
  by code_simp

section \<open>The volume-weighted stock price\<close>

text \<open>
  C1, as the code has it.  When the ledger is not empty, all its trades are inside the
  window and are trades that \<open>record_trade\<close> admits, and the sum of quantity times price
  is below \<open>10 ^ 27\<close> pennies, \<open>volume_weighted_stock_price\<close> is the sum of quantity times
  price over the sum of quantities, in currency units, rounded once, half-up, to 2
  digits: the rounding of the quotient to 28 significant digits in between changes
  nothing.  For the two trades of the worked example the result is 100.03.
\<close>

theorem vwsp_rounds_once:
  assumes "cutoff_time now w = Inr c"
    and "trades s \<noteq> []"
    and "\<forall>t\<in>set (trades s). c \<le> timestamp t \<and> admitted t"
    and "weighted (trades s) < 10 ^ 27"
  shows "volume_weighted_stock_price s now w
       = Inr (Some (round2_half_up
           (of_int (weighted (trades s)) / of_int (total_qty (trades s)) / 100)))"
proof -
  have r: "recent_trades s c = trades s"
    using assms(3) by (simp add: recent_trades_def)
  have "vwap_of (trades s)
      = Inr (Some (round2_half_up
           (of_int (weighted (trades s)) / of_int (total_qty (trades s)) / 100)))"
    using assms(2,3,4) by (intro vwap_of_single_rounding) simp_all
  then show ?thesis
    using assms(1) by (simp add: volume_weighted_stock_price_def r)
qed

theorem vwsp_rounds_once_witness:
  "cutoff_time (demo_t0 + 2) 5 = Inr (demo_t0 + 2 - 300000000)
   \<and> trades tea2 \<noteq> []
   \<and> weighted (trades tea2) < 10 ^ 27
   \<and> volume_weighted_stock_price tea2 (demo_t0 + 2) 5
       = Inr (Some (round2_half_up
           (of_int (weighted (trades tea2)) / of_int (total_qty (trades tea2)) / 100)))
   \<and> round2_half_up (of_int (weighted (trades tea2)) / of_int (total_qty (trades tea2)) / 100)
       = 10003 / 100"
  using vwsp_rounds_once[OF demo_cutoff tea2_weighted(2) tea2_in_window tea2_weighted(1)]
    demo_cutoff tea2_weighted tea2_single_rounding
  by blast

text \<open>
  The worked example gives 100.03, not 100.37.  And without the bound the two roundings
  show: on the ledger \<open>huge_trades\<close> the quotient \<open>1.4999999999999999999999999999995\<close> is
  first rounded to \<open>1.5\<close>, so the method returns 0.02, where the quotient rounded once is
  0.01.
\<close>

theorem vwsp_example_value_and_double_rounding:
  "volume_weighted_stock_price tea2 (demo_t0 + 2) 5 = Inr (Some (10003 / 100))
   \<and> volume_weighted_stock_price tea2 (demo_t0 + 2) 5 \<noteq> Inr (Some (10037 / 100))
   \<and> volume_weighted_stock_price huge (demo_t0 + 2) 5 = Inr (Some (2 / 100))
   \<and> volume_weighted_stock_price huge (demo_t0 + 2) 5
       \<noteq> Inr (Some (round2_half_up
             (of_int (weighted (trades huge)) / of_int (total_qty (trades huge)) / 100)))"
  unfolding tea2_vwsp huge_vwsp huge_single_rounding by simp

section \<open>The dividend yield\<close>

text \<open>
  C5, as the code has it.  \<open>dividend_yield\<close> returns exactly 0 for a price that is not
  positive.  For a positive price it returns, rounded once half-up to 2 digits,
  \<open>last_dividend * 100 / price\<close> on a common stock whose last dividend is below \<open>10 ^ 23\<close>
  (and price below \<open>10 ^ 28\<close>), and \<open>rate * par_value * 100 / price\<close> on a preferred stock
  whose rate \<open>m / d\<close> (a fraction in lowest terms, the value of the float) satisfies
  \<open>30000 * m * par_value < 10 ^ 27\<close> and \<open>d * price < 10 ^ 400\<close>: within these bounds the
  roundings to 28 significant digits in between change nothing.
\<close>

theorem dividend_yield_rounds_once:
  "(price \<le> 0 \<longrightarrow> dividend_yield s price = Inr 0)
   \<and> (0 < price \<and> price < 10 ^ 28 \<and> kind s = Common
        \<and> 0 \<le> last_dividend_pennies s \<and> last_dividend_pennies s < 10 ^ 23 \<longrightarrow>
      dividend_yield s price
        = Inr (round2_half_up (of_int (last_dividend_pennies s) * 100 / of_int price)))
   \<and> (0 < price \<and> kind s = Preferred pct \<and> 0 < pct \<and> 0 < par_value_pennies s
        \<and> 30000 * fst (quotient_of pct) * par_value_pennies s < 10 ^ 27
        \<and> snd (quotient_of pct) * price < 10 ^ 400 \<longrightarrow>
      dividend_yield s price
        = Inr (round2_half_up (pct * of_int (par_value_pennies s) * 100 / of_int price)))"
proof -
  have a: "dividend_yield s price = Inr 0" if "price \<le> 0"
    using that by (simp add: dividend_yield_def)
  have b: "dividend_yield s price
        = Inr (round2_half_up (of_int (last_dividend_pennies s) * 100 / of_int price))"
    if "0 < price \<and> price < 10 ^ 28 \<and> kind s = Common
        \<and> 0 \<le> last_dividend_pennies s \<and> last_dividend_pennies s < 10 ^ 23"
    using that by (intro common_yield) simp_all
  have c: "dividend_yield s price
        = Inr (round2_half_up (pct * of_int (par_value_pennies s) * 100 / of_int price))"
    if h: "0 < price \<and> kind s = Preferred pct \<and> 0 < pct \<and> 0 < par_value_pennies s
        \<and> 30000 * fst (quotient_of pct) * par_value_pennies s < 10 ^ 27
        \<and> snd (quotient_of pct) * price < 10 ^ 400"
  proof -
    have q: "quotient_of pct = (fst (quotient_of pct), snd (quotient_of pct))" by simp
    from h show ?thesis
      by (intro preferred_yield[OF _ _ q]) blast+
  qed
  show ?thesis using a b c by blast
qed

theorem dividend_yield_rounds_once_witness:
  "dividend_yield pop0 0 = Inr 0
   \<and> dividend_yield pop0 10000 = Inr (8 / 100)
   \<and> dividend_yield gin0 10000 = Inr 2"
proof -
  have a: "dividend_yield pop0 0 = Inr 0"
    using dividend_yield_rounds_once[of 0 pop0] by simp
  have "dividend_yield pop0 10000
      = Inr (round2_half_up (of_int (last_dividend_pennies pop0) * 100 / of_int 10000))"
    using dividend_yield_rounds_once[of 10000 pop0] by (simp add: pop0_def)
  then have b: "dividend_yield pop0 10000 = Inr (8 / 100)"
    using pop0_yield_value by (simp add: pop0_def)
  have k: "kind gin0 = Preferred (5764607523034235 / 2 ^ 58)" "par_value_pennies gin0 = 10000"
    by (simp_all add: gin0_def)
  have h: "0 < (10000::int) \<and> kind gin0 = Preferred (5764607523034235 / 2 ^ 58)
      \<and> 0 < (5764607523034235 / 2 ^ 58 :: rat) \<and> 0 < par_value_pennies gin0
      \<and> 30000 * fst (quotient_of (5764607523034235 / 2 ^ 58)) * par_value_pennies gin0 < 10 ^ 27
      \<and> snd (quotient_of (5764607523034235 / 2 ^ 58)) * 10000 < 10 ^ 400"
    unfolding float_0_02_quotient k by simp
  have "dividend_yield gin0 10000
      = Inr (round2_half_up (5764607523034235 / 2 ^ 58 * of_int (par_value_pennies gin0) * 100
          / of_int 10000))"
    using dividend_yield_rounds_once[of 10000 gin0 "5764607523034235 / 2 ^ 58",
        THEN conjunct2, THEN conjunct2, THEN mp, OF h] .
  then have c: "dividend_yield gin0 10000 = Inr 2"
    unfolding k gin0_yield_value .
  show ?thesis using a b c by blast
qed

text \<open>
  Beyond the bounds the formula fails: a common stock with a last dividend of \<open>10 ^ 30\<close>
  pennies at a price of 1 penny has a yield of \<open>10 ^ 32\<close>, which \<open>quantize\<close> cannot
  represent in 28 digits; the method raises \<open>InvalidOperation\<close>.
\<close>

theorem dividend_yield_out_of_context:
  "dividend_yield (pop0\<lparr>last_dividend_pennies := 10 ^ 30\<rparr>) 1 = Inl InvalidOperation
   \<and> dividend_yield (pop0\<lparr>last_dividend_pennies := 10 ^ 30\<rparr>) 1
       \<noteq> Inr (round2_half_up (of_int (10 ^ 30) * 100 / of_int 1))"
  by code_simp

section \<open>The all-share index: which stocks enter\<close>

text \<open>
  C2, as the code has it.  An exception raised by a call of
  \<open>volume_weighted_stock_price\<close> propagates out of \<open>gbce_all_share_index\<close>.  When every
  call returns, the index is computed from the qualifying prices alone, those that are
  defined and strictly positive; a stock without a price is left out and is not counted
  as zero.  When every stock's price is undefined or not positive, and in particular
  when no stock has a trade, the index is \<open>None\<close>: not zero, and not an exception.
\<close>

theorem index_takes_qualifying_stocks_only:
  "(\<forall>e. collect_vwsps clock 0 (map snd ex) = Inl e \<longrightarrow> gbce_all_share_index L ex clock = Inl e)
   \<and> (\<forall>vs. collect_vwsps clock 0 (map snd ex) = Inr vs \<longrightarrow>
      gbce_all_share_index L ex clock =
        (if qualifying_vwsps clock 0 (map snd ex) = [] then Inr None
         else case log_mean_exp L (map float_of_dec (qualifying_vwsps clock 0 (map snd ex))) of
                Inl e \<Rightarrow> Inl e
              | Inr g \<Rightarrow> Inr (Some g)))
   \<and> ((\<forall>j<length ex. \<exists>r. volume_weighted_stock_price (snd (ex ! j)) (clock j) 5 = Inr r
             \<and> (r = None \<or> (\<exists>v. r = Some v \<and> v \<le> 0)))
        \<longrightarrow> gbce_all_share_index L ex clock = Inr None)
   \<and> ((\<forall>j<length ex. trades (snd (ex ! j)) = [] \<and> datetime_ok (clock j - 300000000))
        \<longrightarrow> gbce_all_share_index L ex clock = Inr None)"
proof -
  have r: "gbce_all_share_index L ex clock = Inl e"
    if "collect_vwsps clock 0 (map snd ex) = Inl e" for e
    using that by (simp add: gbce_all_share_index_def)
  have a: "gbce_all_share_index L ex clock =
        (if qualifying_vwsps clock 0 (map snd ex) = [] then Inr None
         else case log_mean_exp L (map float_of_dec (qualifying_vwsps clock 0 (map snd ex))) of
                Inl e \<Rightarrow> Inl e
              | Inr g \<Rightarrow> Inr (Some g))"
    if "collect_vwsps clock 0 (map snd ex) = Inr vs" for vs
    using collect_vwsps_qualifying[OF that]
    by (simp add: gbce_all_share_index_def that Let_def)
  have b: "gbce_all_share_index L ex clock = Inr None"
    if h: "\<forall>j<length ex. \<exists>r. volume_weighted_stock_price (snd (ex ! j)) (clock j) 5 = Inr r
             \<and> (r = None \<or> (\<exists>v. r = Some v \<and> v \<le> 0))"
  proof -
    from h have "\<forall>j<length (map snd ex). \<exists>r.
        volume_weighted_stock_price (map snd ex ! j) (clock (0 + j)) 5 = Inr r
             \<and> (r = None \<or> (\<exists>v. r = Some v \<and> v \<le> 0))"
      by simp
    from none_qualify[OF this] obtain vs where
      "collect_vwsps clock 0 (map snd ex) = Inr vs" "qualifying_vwsps clock 0 (map snd ex) = []"
      by blast
    then show ?thesis using a by simp
  qed
  have c: "gbce_all_share_index L ex clock = Inr None"
    if h: "\<forall>j<length ex. trades (snd (ex ! j)) = [] \<and> datetime_ok (clock j - 300000000)"
  proof -
    from h have "\<forall>j<length (map snd ex). trades (map snd ex ! j) = []
        \<and> datetime_ok (clock (0 + j) - 300000000)"
      by simp
    from collect_vwsps_no_trades[OF this] show ?thesis
      using b by simp
  qed
  show ?thesis using r a b c by blast
qed

theorem index_takes_qualifying_stocks_only_witness:
  "gbce_all_share_index table_libm [(''TEA'', costly)] (\<lambda>i. demo_t0 + 2) = Inl InvalidOperation
   \<and> gbce_all_share_index table_libm [(''TEA'', tea2), (''POP'', pop0)] (\<lambda>i. demo_t0 + 2)
     = (case log_mean_exp table_libm [float_of_dec (10003 / 100)] of
          Inl e \<Rightarrow> Inl e
        | Inr g \<Rightarrow> Inr (Some g))
   \<and> gbce_all_share_index table_libm [(''TEA'', tea0), (''POP'', pop0)] (\<lambda>i. demo_t0 + 2)
     = Inr None
   \<and> gbce_all_share_index table_libm [(''POP'', pop0)] (\<lambda>i. demo_t0 + 2) = Inr None"
proof -
  let ?L = "table_libm"
  let ?clock = "\<lambda>i::nat. demo_t0 + 2"
  have pop: "volume_weighted_stock_price pop0 (demo_t0 + 2) 5 = Inr None"
    by (rule no_trades_vwsp) (simp add: pop0_def)
  have tea: "volume_weighted_stock_price tea0 (demo_t0 + 2) 5 = Inr None"
    by (rule no_trades_vwsp) (simp add: tea0_def)
  have e: "collect_vwsps ?clock 0 (map snd [(''TEA'', costly)]) = Inl InvalidOperation"
    by (simp add: costly_vwsp)
  have c: "collect_vwsps ?clock 0 (map snd [(''TEA'', tea2), (''POP'', pop0)])
      = Inr [float_of_vwsp (Some (10003 / 100)), float_of_vwsp None]"
    by (simp add: tea2_vwsp pop)
  have q: "qualifying_vwsps ?clock 0 (map snd [(''TEA'', tea2), (''POP'', pop0)]) = [10003 / 100]"
    by (simp add: tea2_vwsp pop)
  have h: "\<forall>j<length [(''TEA'', tea0), (''POP'', pop0)].
      \<exists>r. volume_weighted_stock_price (snd ([(''TEA'', tea0), (''POP'', pop0)] ! j)) (?clock j) 5
            = Inr r \<and> (r = None \<or> (\<exists>v. r = Some v \<and> v \<le> 0))"
    by (simp add: less_Suc_eq tea pop all_conj_distrib)
  have n: "\<forall>j<length [(''POP'', pop0)]. trades (snd ([(''POP'', pop0)] ! j)) = []
      \<and> datetime_ok (?clock j - 300000000)"
    by (simp add: pop0_def datetime_ok_def us_per_day_def demo_t0_def)
  have r: "gbce_all_share_index ?L [(''TEA'', costly)] ?clock = Inl InvalidOperation"
    using index_takes_qualifying_stocks_only[of ?clock "[(''TEA'', costly)]" ?L,
        THEN conjunct1, rule_format, OF e] .
  have a: "gbce_all_share_index ?L [(''TEA'', tea2), (''POP'', pop0)] ?clock
     = (case log_mean_exp ?L [float_of_dec (10003 / 100)] of
          Inl e \<Rightarrow> Inl e | Inr g \<Rightarrow> Inr (Some g))"
    using index_takes_qualifying_stocks_only[of ?clock "[(''TEA'', tea2), (''POP'', pop0)]" ?L,
        THEN conjunct2, THEN conjunct1, rule_format, OF c]
    unfolding q by simp
  have b: "gbce_all_share_index ?L [(''TEA'', tea0), (''POP'', pop0)] ?clock = Inr None"
    using index_takes_qualifying_stocks_only[of ?clock "[(''TEA'', tea0), (''POP'', pop0)]" ?L,
        THEN conjunct2, THEN conjunct2, THEN conjunct1, THEN mp, OF h] .
  have d: "gbce_all_share_index ?L [(''POP'', pop0)] ?clock = Inr None"
    using index_takes_qualifying_stocks_only[of ?clock "[(''POP'', pop0)]" ?L,
        THEN conjunct2, THEN conjunct2, THEN conjunct2, THEN mp, OF n] .
  show ?thesis using r a b d by blast
qed

text \<open>
  An exchange on which no stock qualifies and the index raises: TEA holds the one trade
  of 1 share at \<open>10 ^ 28\<close> pennies, which \<open>record_trade\<close> accepts; its price needs 29 digits
  at two decimals, so \<open>volume_weighted_stock_price\<close> raises \<open>InvalidOperation\<close> and so does
  the index.
\<close>

theorem index_raises_with_no_qualifying_stock:
  "record_trade tea0 demo_t0 1 BUY (10 ^ 28) = (Inr (), costly)
   \<and> qualifying_vwsps (\<lambda>i. demo_t0 + 2) 0 (map snd [(''TEA'', costly)]) = []
   \<and> gbce_all_share_index table_libm [(''TEA'', costly)] (\<lambda>i. demo_t0 + 2)
       = Inl InvalidOperation
   \<and> gbce_all_share_index table_libm [(''TEA'', costly)] (\<lambda>i. demo_t0 + 2) \<noteq> Inr None"
  unfolding costly_recorded by (simp add: costly_vwsp gbce_all_share_index_def)

section \<open>The lookback window\<close>



section \<open>The all-share index: the geometric mean\<close>



end
